theory Spec2Isabelle
  imports Complex_Main "HOL-Library.Sublist" "HOL-Library.Word"
begin

section \<open>Values of the JavaScript runtime\<close>

text \<open>
  The classifier coerces amounts of unknown runtime type (\<open>safeBigInt(value: unknown)\<close>),
  so amounts are modelled as tagged runtime values. A finite double is a rational number
  (every finite double is one); the three non-finite doubles are separate constructors.
  \<open>JSObject\<close> stands for every value that is neither primitive nor null (objects, arrays,
  functions), which the code under study only ever tests for its type.
\<close>

datatype jsnumber = Finite rat | NaN | PosInfinity | NegInfinity

datatype jsvalue =
    JSUndefined
  | JSNull
  | JSBoolean bool
  | JSNumber jsnumber
  | JSBigInt int
  | JSString string
  | JSObject

text \<open>Truthiness (\<open>ToBoolean\<close>), as used by \<open>tx.transactionError\<close> in a condition.\<close>

fun truthy :: "jsvalue \<Rightarrow> bool" where
  "truthy JSUndefined = False"
| "truthy JSNull = False"
| "truthy (JSBoolean b) = b"
| "truthy (JSNumber (Finite q)) = (q \<noteq> 0)"
| "truthy (JSNumber NaN) = False"
| "truthy (JSNumber PosInfinity) = True"
| "truthy (JSNumber NegInfinity) = True"
| "truthy (JSBigInt n) = (n \<noteq> 0)"
| "truthy (JSString s) = (s \<noteq> [])"
| "truthy JSObject = True"

subsection \<open>Decimal text of integers\<close>

definition digit_char :: "nat \<Rightarrow> char" where
  "digit_char d = char_of (48 + d)"

definition isDigit :: "char \<Rightarrow> bool" where
  "isDigit c = (48 \<le> (of_char c :: nat) \<and> (of_char c :: nat) \<le> 57)"

definition digit_val :: "char \<Rightarrow> nat" where
  "digit_val c = (of_char c :: nat) - 48"

fun nat_toString :: "nat \<Rightarrow> string" where
  "nat_toString n =
     (if n < 10 then [digit_char n] else nat_toString (n div 10) @ [digit_char (n mod 10)])"

declare nat_toString.simps [simp del]

text \<open>
  \<open>bigint.prototype.toString()\<close>: the decimal digits, with a leading minus sign for a
  negative value. \<open>Number.prototype.toString()\<close> gives the same text for an integer below
  \<open>10^21\<close> in magnitude, which covers sequence numbers and slots.
\<close>

definition bigint_toString :: "int \<Rightarrow> string" where
  "bigint_toString i =
     (if i < 0 then CHR ''-'' # nat_toString (nat (- i)) else nat_toString (nat i))"

definition number_toString :: "int \<Rightarrow> string" where
  "number_toString i = bigint_toString i"

definition digits_value :: "string \<Rightarrow> nat" where
  "digits_value s = foldl (\<lambda>a c. 10 * a + digit_val c) 0 s"

text \<open>The regular expression \<open>/^\\d+$/\<close>: one or more ASCII digits and nothing else.\<close>

definition isDigitString :: "string \<Rightarrow> bool" where
  "isDigitString s = (s \<noteq> [] \<and> list_all isDigit s)"

subsection \<open>The \<open>BigInt\<close> conversion function\<close>

text \<open>
  \<open>BigInt(string)\<close> follows \<open>StringToBigInt\<close>: white space is trimmed, the empty text is
  zero, then either an optionally signed run of decimal digits or an unsigned literal with
  a radix prefix; anything else throws \<open>SyntaxError\<close> (\<open>None\<close>). White space is
  modelled for the ASCII characters TAB, LF, VT, FF, CR and SPACE.
\<close>

definition isWhiteSpace :: "char \<Rightarrow> bool" where
  "isWhiteSpace c = ((of_char c :: nat) \<in> {9, 10, 11, 12, 13, 32})"

definition trim :: "string \<Rightarrow> string" where
  "trim s = rev (dropWhile isWhiteSpace (rev (dropWhile isWhiteSpace s)))"

definition radix_digit :: "char \<Rightarrow> nat option" where
  "radix_digit c =
     (let k = (of_char c :: nat) in
      if 48 \<le> k \<and> k \<le> 57 then Some (k - 48)
      else if 97 \<le> k \<and> k \<le> 102 then Some (k - 87)
      else if 65 \<le> k \<and> k \<le> 70 then Some (k - 55)
      else None)"

fun radix_value :: "nat \<Rightarrow> nat \<Rightarrow> string \<Rightarrow> nat option" where
  "radix_value b acc [] = Some acc"
| "radix_value b acc (c # cs) =
     (case radix_digit c of
        None \<Rightarrow> None
      | Some d \<Rightarrow> if d < b then radix_value b (b * acc + d) cs else None)"

definition radix_literal :: "string \<Rightarrow> int option" where
  "radix_literal t =
     (case t of
        z # p # ds \<Rightarrow>
          if z = CHR ''0'' \<and> ds \<noteq> [] then
            (if p = CHR ''x'' \<or> p = CHR ''X'' then map_option int (radix_value 16 0 ds)
             else if p = CHR ''o'' \<or> p = CHR ''O'' then map_option int (radix_value 8 0 ds)
             else if p = CHR ''b'' \<or> p = CHR ''B'' then map_option int (radix_value 2 0 ds)
             else None)
          else None
      | _ \<Rightarrow> None)"

definition BigInt_string :: "string \<Rightarrow> int option" where
  "BigInt_string s =
     (let t = trim s in
      case t of
        [] \<Rightarrow> Some 0
      | c # r \<Rightarrow>
          if c = CHR ''-'' then
            (if isDigitString r then Some (- int (digits_value r)) else None)
          else if c = CHR ''+'' then
            (if isDigitString r then Some (int (digits_value r)) else None)
          else if isDigitString t then Some (int (digits_value t))
          else radix_literal t)"

text \<open>
  \<open>Math.floor\<close> on a double, and \<open>BigInt(number)\<close>, which throws \<open>RangeError\<close>
  (\<open>None\<close>) unless the number is an integer.
\<close>

fun Math_floor :: "jsnumber \<Rightarrow> jsnumber" where
  "Math_floor (Finite q) = Finite (of_int \<lfloor>q\<rfloor>)"
| "Math_floor x = x"

fun BigInt_number :: "jsnumber \<Rightarrow> int option" where
  "BigInt_number (Finite q) = (if of_int \<lfloor>q\<rfloor> = q then Some \<lfloor>q\<rfloor> else None)"
| "BigInt_number x = None"

fun Number_isFinite :: "jsnumber \<Rightarrow> bool" where
  "Number_isFinite (Finite q) = True"
| "Number_isFinite x = False"

subsection \<open>Arithmetic on doubles\<close>

text \<open>
  A finite double is a rational \<open>m * 2^p\<close> with \<open>\<bar>m\<bar> < 2^53\<close> and \<open>-1074 \<le> p \<le> 971\<close>.
  Every operation of the language on numbers gives the double nearest to the exact result,
  a tie going to the even mantissa, and an infinity once the rounded magnitude reaches
  \<open>2^1024\<close>. The two zeros of the format are one value here: they are equal for \<open>===\<close>
  and for the comparisons.
\<close>

fun bit_length :: "nat \<Rightarrow> nat" where
  "bit_length n = (if n = 0 then 0 else Suc (bit_length (n div 2)))"

declare bit_length.simps [simp del]

text \<open>The binary exponent of a positive rational: \<open>2^e \<le> x < 2^(e+1)\<close>.\<close>

definition binary_exponent :: "rat \<Rightarrow> int" where
  "binary_exponent x =
     (case quotient_of x of
        (a, b) \<Rightarrow>
          (let k = int (bit_length (nat a)) - int (bit_length (nat b))
           in if 2 powi k \<le> x then k else k - 1))"

definition round_half_even :: "rat \<Rightarrow> int" where
  "round_half_even x =
     (let f = \<lfloor>x\<rfloor>; r = x - of_int f
      in if r < 1 / 2 then f else if 1 / 2 < r then f + 1 else if even f then f else f + 1)"

text \<open>The nearest multiple of \<open>2^p\<close>, and the nearest double to a positive rational.\<close>

definition round_to_multiple :: "int \<Rightarrow> rat \<Rightarrow> rat" where
  "round_to_multiple p x = of_int (round_half_even (x / 2 powi p)) * 2 powi p"

text \<open>
  The doubles next to a positive \<open>x\<close> are multiples of \<open>2^(e - 52)\<close>, where \<open>e\<close> is the
  binary exponent of \<open>x\<close>, and of \<open>2^(-1074)\<close> in the subnormal range.
\<close>

definition quantum :: "rat \<Rightarrow> int" where
  "quantum x = max (binary_exponent x - 52) (- 1074)"

definition round_positive :: "rat \<Rightarrow> jsnumber" where
  "round_positive x =
     (let v = round_to_multiple (quantum x) x
      in if v < 2 ^ 1024 then Finite v else PosInfinity)"

fun js_negate :: "jsnumber \<Rightarrow> jsnumber" where
  "js_negate (Finite q) = Finite (- q)"
| "js_negate NaN = NaN"
| "js_negate PosInfinity = NegInfinity"
| "js_negate NegInfinity = PosInfinity"

definition round_double :: "rat \<Rightarrow> jsnumber" where
  "round_double x =
     (if x = 0 then Finite 0
      else if 0 < x then round_positive x
      else js_negate (round_positive (- x)))"

text \<open>
  \<open>Number(bigint)\<close>, the operators \<open>*\<close> and \<open>/\<close>, \<open>Math.round\<close> (half up) and the
  comparisons \<open>>=\<close> and \<open><=\<close>, which are false when an operand is \<open>NaN\<close>.
\<close>

definition Number_bigint :: "int \<Rightarrow> jsnumber" where
  "Number_bigint i = round_double (of_int i)"

fun js_times :: "jsnumber \<Rightarrow> jsnumber \<Rightarrow> jsnumber" where
  "js_times (Finite a) (Finite b) = round_double (a * b)"
| "js_times NaN y = NaN"
| "js_times x NaN = NaN"
| "js_times (Finite a) y = (if a = 0 then NaN else if 0 < a then y else js_negate y)"
| "js_times x (Finite b) = (if b = 0 then NaN else if 0 < b then x else js_negate x)"
| "js_times x y = (if x = y then PosInfinity else NegInfinity)"

fun js_divide :: "jsnumber \<Rightarrow> jsnumber \<Rightarrow> jsnumber" where
  "js_divide (Finite a) (Finite b) =
     (if b = 0 then (if a = 0 then NaN else if 0 < a then PosInfinity else NegInfinity)
      else round_double (a / b))"
| "js_divide NaN y = NaN"
| "js_divide x NaN = NaN"
| "js_divide (Finite a) y = Finite 0"
| "js_divide x (Finite b) = (if 0 \<le> b then x else js_negate x)"
| "js_divide x y = NaN"

fun Math_round :: "jsnumber \<Rightarrow> jsnumber" where
  "Math_round (Finite q) = Finite (of_int \<lfloor>q + 1 / 2\<rfloor>)"
| "Math_round x = x"

fun js_le :: "jsnumber \<Rightarrow> jsnumber \<Rightarrow> bool" where
  "js_le (Finite a) (Finite b) = (a \<le> b)"
| "js_le NaN y = False"
| "js_le x NaN = False"
| "js_le NegInfinity y = True"
| "js_le x PosInfinity = True"
| "js_le x y = False"

definition js_ge :: "jsnumber \<Rightarrow> jsnumber \<Rightarrow> bool" where
  "js_ge x y = js_le y x"

subsection \<open>Dates\<close>

text \<open>
  Truncation toward zero (\<open>ToIntegerOrInfinity\<close>), and \<open>new Date(number)\<close>: the time
  value is the number cut to an integer when it is finite and at most \<open>8.64e15\<close> in
  magnitude (\<open>TimeClip\<close>); otherwise the date is an \<open>Invalid Date\<close>.
\<close>

definition truncate_toward_zero :: "rat \<Rightarrow> int" where
  "truncate_toward_zero q = (if q < 0 then - \<lfloor>- q\<rfloor> else \<lfloor>q\<rfloor>)"

datatype jsdate = DateValue int | InvalidDate

fun new_Date :: "jsnumber \<Rightarrow> jsdate" where
  "new_Date (Finite q) =
     (if \<bar>q\<bar> \<le> 8640000000000000 then DateValue (truncate_toward_zero q) else InvalidDate)"
| "new_Date x = InvalidDate"

subsection \<open>String helpers\<close>

text \<open>
  \<open>String.prototype.includes\<close> and \<open>toLowerCase\<close>. Strings are byte strings; lower-casing
  is modelled on the ASCII letters, which are the only characters that can produce the
  ASCII keywords the classifier looks for.
\<close>

fun String_includes :: "string \<Rightarrow> string \<Rightarrow> bool" where
  "String_includes [] sub = (sub = [])"
| "String_includes (c # s) sub = (take (length sub) (c # s) = sub \<or> String_includes s sub)"

definition lower_char :: "char \<Rightarrow> char" where
  "lower_char c =
     (let k = (of_char c :: nat) in if 65 \<le> k \<and> k \<le> 90 then char_of (k + 32) else c)"

definition toLowerCase :: "string \<Rightarrow> string" where
  "toLowerCase s = map lower_char s"

section \<open>The transaction classifier (\<open>src/lib/classifier.ts\<close>)\<close>

datatype FeeEventType = Collect | Withdraw | Burn

text \<open>
  \<open>safeBigInt\<close>: \<open>undefined\<close> and \<open>null\<close> give zero; a bigint is returned as it is; a
  finite number goes through \<open>BigInt(Math.floor(value))\<close>; a string matching
  \<open>/^\\d+$/\<close> goes through \<open>BigInt(value)\<close>; every other value, and every
  exception caught by the \<open>try\<close> block, gives zero.
\<close>

fun safeBigInt :: "jsvalue \<Rightarrow> int" where
  "safeBigInt JSUndefined = 0"
| "safeBigInt JSNull = 0"
| "safeBigInt (JSBigInt n) = n"
| "safeBigInt (JSNumber x) =
     (if Number_isFinite x
      then (case BigInt_number (Math_floor x) of Some n \<Rightarrow> n | None \<Rightarrow> 0)
      else 0)"
| "safeBigInt (JSString s) =
     (if isDigitString s
      then (case BigInt_string s of Some n \<Rightarrow> n | None \<Rightarrow> 0)
      else 0)"
| "safeBigInt v = 0"

text \<open>
  The fields of a parsed transaction that the classifier reads (the type
  \<open>EnrichedTransaction\<close>). Amounts are runtime values, since they pass through
  \<open>safeBigInt\<close>. Optional fields are options. The arrays are lists: the code reads a
  missing array as the empty one (\<open>tx.nativeTransfers || []\<close>).
\<close>

record NativeTransfer =
  fromUserAccount :: string
  toUserAccount :: string
  amount :: jsvalue

record TokenTransfer =
  mint :: string
  tt_fromUserAccount :: string
  tt_toUserAccount :: string
  tokenAmount :: jsvalue
  toTokenAccount :: "string option"

record AccountData =
  account :: string

record InnerInstruction =
  inner_type :: "string option"

record Instruction =
  programId :: string
  innerInstructions :: "InnerInstruction list option"

record BurnEvent =
  burn_amount :: jsvalue

record TxEvents =
  burn :: "BurnEvent option"

record ParsedTransaction =
  signature :: string
  timestamp :: "jsnumber option"
  description :: "string option"
  transactionError :: jsvalue
  accountData :: "AccountData list"
  nativeTransfers :: "NativeTransfer list"
  tokenTransfers :: "TokenTransfer list"
  instructions :: "Instruction list"
  events :: "TxEvents option"

text \<open>A classified event. The two burn fields are absent (\<open>None\<close>) unless the event is a burn.\<close>

record ClassifiedEvent =
  ce_type :: FeeEventType
  amountLamports :: int
  ce_signature :: string
  blockTime :: jsdate
  burnedTokenMint :: "string option"
  burnedTokenAmount :: "int option"

definition JUPITER_V6_PROGRAM_ID :: string where
  "JUPITER_V6_PROGRAM_ID = ''JUP6LkbZbjS1jKKwapdHNy74zcZ3tLUZoi5QNyVTaV4''"

definition RAYDIUM_AMM_PROGRAM_ID :: string where
  "RAYDIUM_AMM_PROGRAM_ID = ''675kPX9MHTjS2zt1qfr1NYHuzeLXfQM9H24wFSUt1Mp8''"

definition TOKEN_PROGRAM_ID :: string where
  "TOKEN_PROGRAM_ID = ''TokenkegQfeZyiNwAJbNbGKPFXCWuBvf9Ss623VQ5DA''"

definition BURN_ADDRESS :: string where
  "BURN_ADDRESS = ''1nc1nerator11111111111111111111111111111111''"

text \<open>\<open>hasSwapInstruction\<close>: account data, then instructions, then the description.\<close>

definition hasSwapInstruction :: "ParsedTransaction \<Rightarrow> bool" where
  "hasSwapInstruction tx =
     (let hasJupiter = list_ex (\<lambda>a. String_includes (account a) JUPITER_V6_PROGRAM_ID)
                         (accountData tx);
          hasRaydium = list_ex (\<lambda>a. String_includes (account a) RAYDIUM_AMM_PROGRAM_ID)
                         (accountData tx)
      in if hasJupiter \<or> hasRaydium then True
         else if list_ex (\<lambda>ix. programId ix = JUPITER_V6_PROGRAM_ID \<or>
                                programId ix = RAYDIUM_AMM_PROGRAM_ID) (instructions tx)
         then True
         else
           (let d = (case description tx of None \<Rightarrow> [] | Some t \<Rightarrow> toLowerCase t)
            in if String_includes d ''swap'' \<or> String_includes d ''jupiter'' \<or>
                  String_includes d ''raydium''
               then True else False))"

text \<open>
  \<open>findBurnInTransaction\<close>. The first loop runs over the instructions and returns from
  inside the loop at the first token-program instruction that has an inner instruction of
  type \<open>burn\<close>, provided a transfer of the tracked mint with a falsy \<open>toUserAccount\<close>
  exists; otherwise the loop goes on.
\<close>

definition isBurnTransfer :: "string \<Rightarrow> TokenTransfer \<Rightarrow> bool" where
  "isBurnTransfer tokenMint t = (mint t = tokenMint \<and> tt_toUserAccount t = [])"

definition isToBurnAddress :: "string \<Rightarrow> TokenTransfer \<Rightarrow> bool" where
  "isToBurnAddress tokenMint t =
     (mint t = tokenMint \<and>
      (tt_toUserAccount t = BURN_ADDRESS \<or> toTokenAccount t = Some []))"

definition hasBurnInner :: "Instruction \<Rightarrow> bool" where
  "hasBurnInner ix =
     (case innerInstructions ix of
        None \<Rightarrow> False
      | Some inner \<Rightarrow> list_ex (\<lambda>i. inner_type i = Some ''burn'') inner)"

definition isBurnInstruction :: "Instruction \<Rightarrow> bool" where
  "isBurnInstruction ix = (programId ix = TOKEN_PROGRAM_ID \<and> hasBurnInner ix)"

fun burnInstructionLoop ::
  "TokenTransfer list \<Rightarrow> string \<Rightarrow> Instruction list \<Rightarrow> int option" where
  "burnInstructionLoop tts tokenMint [] = None"
| "burnInstructionLoop tts tokenMint (ix # ixs) =
     (if isBurnInstruction ix then
        (case find (isBurnTransfer tokenMint) tts of
           Some burnTransfer \<Rightarrow> Some (safeBigInt (tokenAmount burnTransfer))
         | None \<Rightarrow> burnInstructionLoop tts tokenMint ixs)
      else burnInstructionLoop tts tokenMint ixs)"

definition findBurnInTransaction :: "ParsedTransaction \<Rightarrow> string \<Rightarrow> int option" where
  "findBurnInTransaction tx tokenMint =
     (case burnInstructionLoop (tokenTransfers tx) tokenMint (instructions tx) of
        Some a \<Rightarrow> Some a
      | None \<Rightarrow>
          (case find (isToBurnAddress tokenMint) (tokenTransfers tx) of
             Some toBurnAddress \<Rightarrow> Some (safeBigInt (tokenAmount toBurnAddress))
           | None \<Rightarrow>
               (case events tx of
                  None \<Rightarrow> None
                | Some ev \<Rightarrow>
                    (case burn ev of
                       None \<Rightarrow> None
                     | Some b \<Rightarrow> Some (safeBigInt (burn_amount b))))))"

text \<open>
  The arrow functions that \<open>classifyTransaction\<close> passes to \<open>Array.prototype.find\<close>:
  a transfer into the vault that does not come from the creator wallet, a transfer out of
  the vault, and (in the late swap branch) a transfer of the tracked mint to the burn
  address or to an empty destination.
\<close>

definition isCollectTransfer :: "string \<Rightarrow> string \<Rightarrow> NativeTransfer \<Rightarrow> bool" where
  "isCollectTransfer creatorVault creatorWallet t =
     (toUserAccount t = creatorVault \<and> fromUserAccount t \<noteq> creatorWallet)"

definition isVaultOutflow :: "string \<Rightarrow> NativeTransfer \<Rightarrow> bool" where
  "isVaultOutflow creatorVault t = (fromUserAccount t = creatorVault)"

definition isTokenBurn :: "string \<Rightarrow> TokenTransfer \<Rightarrow> bool" where
  "isTokenBurn tokenMint t =
     (mint t = tokenMint \<and>
      (tt_toUserAccount t = BURN_ADDRESS \<or> tt_toUserAccount t = [] \<or>
       toTokenAccount t = Some []))"

text \<open>
  \<open>classifyTransaction\<close>. The transaction argument may be \<open>null\<close> (\<open>None\<close>). The block
  time is \<open>new Date((tx.timestamp ?? 0) * 1000)\<close>. Each \<open>return\<close> of the source builds its
  event as an object literal, which is a record here.
\<close>

definition classifyTransaction ::
  "ParsedTransaction option \<Rightarrow> string \<Rightarrow> string \<Rightarrow> string \<Rightarrow> ClassifiedEvent option" where
  "classifyTransaction txo creatorVault creatorWallet tokenMint =
     (case txo of
        None \<Rightarrow> None
      | Some tx \<Rightarrow>
          if truthy (transactionError tx) then None
          else
            (let signature' = signature tx;
                 blockTime' = new_Date (js_times (case timestamp tx of None \<Rightarrow> Finite 0
                                                  | Some t \<Rightarrow> t) (Finite 1000))
             in case find (isCollectTransfer creatorVault creatorWallet) (nativeTransfers tx) of
               Some collectTransfer \<Rightarrow>
                 Some \<lparr> ce_type = Collect,
                        amountLamports = safeBigInt (amount collectTransfer),
                        ce_signature = signature', blockTime = blockTime',
                        burnedTokenMint = None, burnedTokenAmount = None \<rparr>
             | None \<Rightarrow>
                 (case find (isVaultOutflow creatorVault) (nativeTransfers tx) of
                    None \<Rightarrow> None
                  | Some vaultOutflow \<Rightarrow>
                      (let outflowAmount = safeBigInt (amount vaultOutflow);
                           hasSwap = hasSwapInstruction tx;
                           burnInfo = findBurnInTransaction tx tokenMint
                       in if hasSwap \<and> burnInfo \<noteq> None then
                            Some \<lparr> ce_type = Burn, amountLamports = outflowAmount,
                                   ce_signature = signature', blockTime = blockTime',
                                   burnedTokenMint = Some tokenMint,
                                   burnedTokenAmount = burnInfo \<rparr>
                          else if toUserAccount vaultOutflow = creatorWallet then
                            Some \<lparr> ce_type = Withdraw, amountLamports = outflowAmount,
                                   ce_signature = signature', blockTime = blockTime',
                                   burnedTokenMint = None, burnedTokenAmount = None \<rparr>
                          else
                            (case (if hasSwap
                                   then find (isTokenBurn tokenMint) (tokenTransfers tx)
                                   else None) of
                               Some tokenBurn \<Rightarrow>
                                 Some \<lparr> ce_type = Burn, amountLamports = outflowAmount,
                                        ce_signature = signature', blockTime = blockTime',
                                        burnedTokenMint = Some tokenMint,
                                        burnedTokenAmount =
                                          Some (safeBigInt (tokenAmount tokenBurn)) \<rparr>
                             | None \<Rightarrow>
                                 Some \<lparr> ce_type = Withdraw, amountLamports = outflowAmount,
                                        ce_signature = signature', blockTime = blockTime',
                                        burnedTokenMint = None,
                                        burnedTokenAmount = None \<rparr>)))))"

text \<open>\<open>classifyTransactions\<close>: the batch variant keeps the events in input order.\<close>

definition classifyTransactions ::
  "ParsedTransaction option list \<Rightarrow> string \<Rightarrow> string \<Rightarrow> string \<Rightarrow> ClassifiedEvent list" where
  "classifyTransactions transactions creatorVault creatorWallet tokenMint =
     List.map_filter (\<lambda>tx. classifyTransaction tx creatorVault creatorWallet tokenMint)
       transactions"

text \<open>
  The three kinds of burn evidence that \<open>findBurnInTransaction\<close> looks for, in its
  order: a token-program instruction with an inner burn instruction together with a
  transfer of the tracked mint to no user account; a transfer of the tracked mint to the
  burn address; a burn annotation among the events.
\<close>

definition burnInstructionEvidence :: "ParsedTransaction \<Rightarrow> string \<Rightarrow> bool" where
  "burnInstructionEvidence tx tokenMint =
     (list_ex isBurnInstruction (instructions tx) \<and>
      list_ex (isBurnTransfer tokenMint) (tokenTransfers tx))"

definition burnAddressEvidence :: "ParsedTransaction \<Rightarrow> string \<Rightarrow> bool" where
  "burnAddressEvidence tx tokenMint = list_ex (isToBurnAddress tokenMint) (tokenTransfers tx)"

definition burnAnnotation :: "ParsedTransaction \<Rightarrow> BurnEvent option" where
  "burnAnnotation tx = (case events tx of None \<Rightarrow> None | Some ev \<Rightarrow> burn ev)"

text \<open>An amount value that the coercion maps to a non-negative integer for sure.\<close>

fun nonNegativeAmount :: "jsvalue \<Rightarrow> bool" where
  "nonNegativeAmount (JSBigInt n) = (0 \<le> n)"
| "nonNegativeAmount (JSNumber (Finite q)) = (0 \<le> q)"
| "nonNegativeAmount v = True"

text \<open>
  Example transactions, after the fixtures of \<open>classifier.test.ts\<close>: a transaction with
  the given native transfers and nothing else.
\<close>

definition exampleTx :: "NativeTransfer list \<Rightarrow> ParsedTransaction" where
  "exampleTx nts =
     \<lparr> signature = ''sig'', timestamp = Some (Finite 1700000000), description = None,
       transactionError = JSUndefined, accountData = [], nativeTransfers = nts,
       tokenTransfers = [], instructions = [], events = None \<rparr>"

definition transfer :: "string \<Rightarrow> string \<Rightarrow> jsvalue \<Rightarrow> NativeTransfer" where
  "transfer src dst a = \<lparr> fromUserAccount = src, toUserAccount = dst, amount = a \<rparr>"

definition lamports :: "int \<Rightarrow> jsvalue" where
  "lamports n = JSNumber (Finite (of_int n))"

text \<open>
  The vault sends lamports outward in a transaction that invokes the Jupiter program and
  carries a burn annotation (the second concrete scenario of the specification).
\<close>

definition exampleSwapBurnTx :: ParsedTransaction where
  "exampleSwapBurnTx =
     (exampleTx [transfer ''vault'' ''jupiter-pool'' (lamports 2000000000)])
       \<lparr> instructions := [\<lparr> programId = JUPITER_V6_PROGRAM_ID, innerInstructions = None \<rparr>],
         events := Some \<lparr> burn = Some \<lparr> burn_amount = JSNumber (Finite 50000) \<rparr> \<rparr> \<rparr>"

section \<open>Badges and the event ledger (\<open>src/lib/badges.ts\<close>, \<open>src/workers/indexer.ts\<close>)\<close>

datatype BadgeTier = fire | coffee | good | nervous | exiting | arsonist

text \<open>
  \<open>calculateBadgeTier\<close> compares the burn percentage, a double, with the tier bounds.
\<close>

definition calculateBadgeTier :: "jsnumber \<Rightarrow> BadgeTier" where
  "calculateBadgeTier burnPercentage =
     (if js_ge burnPercentage (Finite 95) then fire
      else if js_ge burnPercentage (Finite 80) then coffee
      else if js_ge burnPercentage (Finite 50) then good
      else if js_ge burnPercentage (Finite 20) then nervous
      else if js_ge burnPercentage (Finite 1) then exiting
      else arsonist)"

text \<open>
  Division of bigints truncates toward zero. \<open>calculateBurnPercentage\<close> converts the
  bigint quotient with \<open>Number\<close> and then works on doubles: each of the two divisions and
  the multiplication rounds to the nearest double.
\<close>

definition bigint_div :: "int \<Rightarrow> int \<Rightarrow> int" where
  "bigint_div a b = sgn a * sgn b * (\<bar>a\<bar> div \<bar>b\<bar>)"

definition calculateBurnPercentage :: "int \<Rightarrow> int \<Rightarrow> jsnumber" where
  "calculateBurnPercentage totalCollected totalBurned =
     (if totalCollected = 0 then Finite 0
      else
        (let percentage =
               js_divide (Number_bigint (bigint_div (totalBurned * 10000) totalCollected))
                 (Finite 100)
         in js_divide (Math_round (js_times percentage (Finite 100))) (Finite 100)))"

text \<open>
  The formula of the specification: \<open>round2(100 \<times> totalBurned / totalCollected)\<close>, the
  exact ratio rounded to the nearest hundredth, and zero when nothing was collected.
\<close>

definition round2 :: "rat \<Rightarrow> rat" where
  "round2 x = of_int \<lfloor>x * 100 + 1 / 2\<rfloor> / 100"

definition spec_burnPercentage :: "int \<Rightarrow> int \<Rightarrow> rat" where
  "spec_burnPercentage totalCollected totalBurned =
     (if totalCollected = 0 then 0
      else round2 (100 * of_int totalBurned / of_int totalCollected))"

text \<open>
  The table \<open>fee_events\<close> is a list of rows in insertion order. Its unique index
  \<open>fee_events_signature_key\<close> makes \<open>prisma.feeEvent.create\<close> fail with the error code
  \<open>P2002\<close> when a row with the same signature exists.
\<close>

record FeeEvent =
  tokenId :: int
  eventType :: FeeEventType
  fe_amountLamports :: int
  fe_signature :: string
  fe_blockTime :: jsdate
  fe_burnedTokenMint :: "string option"
  fe_burnedTokenAmount :: "int option"

datatype db_error = P2002

definition createFeeEvent :: "FeeEvent list \<Rightarrow> FeeEvent \<Rightarrow> db_error + FeeEvent list" where
  "createFeeEvent feeEvents row =
     (if list_ex (\<lambda>r. fe_signature r = fe_signature row) feeEvents then Inl P2002
      else Inr (feeEvents @ [row]))"

text \<open>
  The body of the classification loop of \<open>indexToken\<close> for one classified event: the row
  is created, and the \<open>catch\<close> block skips a duplicate (\<open>P2002\<close>) without reporting it.
\<close>

definition feeEventRow :: "int \<Rightarrow> ClassifiedEvent \<Rightarrow> FeeEvent" where
  "feeEventRow tid event =
     \<lparr> tokenId = tid, eventType = ce_type event, fe_amountLamports = amountLamports event,
       fe_signature = ce_signature event, fe_blockTime = blockTime event,
       fe_burnedTokenMint = burnedTokenMint event,
       fe_burnedTokenAmount = burnedTokenAmount event \<rparr>"

definition saveEvent :: "FeeEvent list \<Rightarrow> int \<Rightarrow> ClassifiedEvent \<Rightarrow> FeeEvent list" where
  "saveEvent feeEvents tid event =
     (case createFeeEvent feeEvents (feeEventRow tid event) of
        Inr feeEvents' \<Rightarrow> feeEvents'
      | Inl P2002 \<Rightarrow> feeEvents)"

text \<open>
  \<open>recalculateTokenStats\<close>: the rows of the token are grouped by event type and summed
  (\<open>groupBy\<close> gives one group for each type that occurs), the loop copies each sum into its
  total, and the aggregate is written to the token.
\<close>

record TokenStats =
  totalFeesCollected :: int
  totalFeesBurned :: int
  totalFeesWithdrawn :: int
  totalFeesHeld :: int
  burnPercentage :: jsnumber
  badgeTier :: BadgeTier

definition groupBy_eventType :: "FeeEvent list \<Rightarrow> int \<Rightarrow> (FeeEventType \<times> int) list" where
  "groupBy_eventType feeEvents tid =
     (let rows = filter (\<lambda>r. tokenId r = tid) feeEvents
      in map (\<lambda>ty. (ty, sum_list (map fe_amountLamports (filter (\<lambda>r. eventType r = ty) rows))))
           (filter (\<lambda>ty. list_ex (\<lambda>r. eventType r = ty) rows) [Collect, Burn, Withdraw]))"

fun statsLoop :: "(FeeEventType \<times> int) list \<Rightarrow> int \<times> int \<times> int \<Rightarrow> int \<times> int \<times> int" where
  "statsLoop [] totals = totals"
| "statsLoop ((ty, amt) # rest) (totalCollected, totalBurned, totalWithdrawn) =
     statsLoop rest
       (case ty of
          Collect \<Rightarrow> (amt, totalBurned, totalWithdrawn)
        | Burn \<Rightarrow> (totalCollected, amt, totalWithdrawn)
        | Withdraw \<Rightarrow> (totalCollected, totalBurned, amt))"

definition recalculateTokenStats :: "FeeEvent list \<Rightarrow> int \<Rightarrow> TokenStats" where
  "recalculateTokenStats feeEvents tid =
     (case statsLoop (groupBy_eventType feeEvents tid) (0, 0, 0) of
        (totalCollected, totalBurned, totalWithdrawn) \<Rightarrow>
          (let totalHeld = totalCollected - totalBurned - totalWithdrawn;
               burnPct = calculateBurnPercentage totalCollected totalBurned
           in \<lparr> totalFeesCollected = totalCollected,
                totalFeesBurned = totalBurned,
                totalFeesWithdrawn = totalWithdrawn,
                totalFeesHeld = (if totalHeld < 0 then 0 else totalHeld),
                burnPercentage = burnPct,
                badgeTier = calculateBadgeTier burnPct \<rparr>))"

text \<open>The sum of the amounts of the rows of one token and one event type.\<close>

definition sumByType :: "FeeEvent list \<Rightarrow> int \<Rightarrow> FeeEventType \<Rightarrow> int" where
  "sumByType feeEvents tid ty =
     sum_list (map fe_amountLamports
       (filter (\<lambda>r. tokenId r = tid \<and> eventType r = ty) feeEvents))"

text \<open>Example events for token 1.\<close>

definition exampleEvent :: "FeeEventType \<Rightarrow> int \<Rightarrow> string \<Rightarrow> ClassifiedEvent" where
  "exampleEvent ty amt sig =
     \<lparr> ce_type = ty, amountLamports = amt, ce_signature = sig, blockTime = DateValue 0,
       burnedTokenMint = None, burnedTokenAmount = None \<rparr>"

section \<open>The proof-of-history chain (\<open>src/lib/proof-of-history.ts\<close>)\<close>

subsection \<open>SHA-256\<close>

text \<open>
  \<open>createHash("sha256").update(data).digest("hex")\<close> is the SHA-256 function of FIPS 180-4
  on the bytes of the text, printed in hexadecimal. The functions of this module take the
  digest as a parameter \<open>H\<close>, so that what is proved of them holds for every digest
  function; \<open>sha256_hex\<close> is the one the code passes.
\<close>
unbundle bit_operations_syntax

type_synonym w32 = "32 word"

text \<open>
  The round constants are the first 32 bits of the fractional parts of the cube roots of the
  first 64 primes, and the initial state those of the square roots of the first 8 primes.
  The integer root is found bit by bit from the top.
\<close>

fun root_bits :: "nat \<Rightarrow> nat \<Rightarrow> nat \<Rightarrow> nat \<Rightarrow> nat" where
  "root_bits k n 0 r = r"
| "root_bits k n (Suc b) r =
     root_bits k n b (if (r + 2 ^ b) ^ k \<le> n then r + 2 ^ b else r)"

definition fraction_bits :: "nat \<Rightarrow> nat \<Rightarrow> w32" where
  "fraction_bits k p = word_of_nat (root_bits k (p * 2 ^ (32 * k)) 36 0)"

definition first_primes :: "nat list" where
  "first_primes = filter (\<lambda>n. list_all (\<lambda>d. n mod d \<noteq> 0) [2..<n]) [2..<312]"

definition K256 :: "w32 list" where
  "K256 = map (fraction_bits 3) first_primes"

type_synonym sha_state = "w32 \<times> w32 \<times> w32 \<times> w32 \<times> w32 \<times> w32 \<times> w32 \<times> w32"

definition H256 :: sha_state where
  "H256 = (fraction_bits 2 2, fraction_bits 2 3, fraction_bits 2 5, fraction_bits 2 7,
           fraction_bits 2 11, fraction_bits 2 13, fraction_bits 2 17, fraction_bits 2 19)"

definition rotr :: "nat \<Rightarrow> w32 \<Rightarrow> w32" where
  "rotr n x = word_rotr n x"

definition Ch :: "w32 \<Rightarrow> w32 \<Rightarrow> w32 \<Rightarrow> w32" where
  "Ch x y z = (x AND y) XOR (NOT x AND z)"

definition Maj :: "w32 \<Rightarrow> w32 \<Rightarrow> w32 \<Rightarrow> w32" where
  "Maj x y z = (x AND y) XOR (x AND z) XOR (y AND z)"

definition Sigma0 :: "w32 \<Rightarrow> w32" where
  "Sigma0 x = rotr 2 x XOR rotr 13 x XOR rotr 22 x"

definition Sigma1 :: "w32 \<Rightarrow> w32" where
  "Sigma1 x = rotr 6 x XOR rotr 11 x XOR rotr 25 x"

definition sigma0 :: "w32 \<Rightarrow> w32" where
  "sigma0 x = rotr 7 x XOR rotr 18 x XOR drop_bit 3 x"

definition sigma1 :: "w32 \<Rightarrow> w32" where
  "sigma1 x = rotr 17 x XOR rotr 19 x XOR drop_bit 10 x"

text \<open>Padding: the byte 0x80, zero bytes, and the bit length as 8 big-endian bytes.\<close>

definition be_bytes :: "nat \<Rightarrow> nat \<Rightarrow> nat list" where
  "be_bytes k n = map (\<lambda>i. (n div 256 ^ (k - 1 - i)) mod 256) [0..<k]"

definition sha_pad :: "nat list \<Rightarrow> nat list" where
  "sha_pad bs =
     (let l = length bs; z = (119 - l mod 64) mod 64
      in bs @ [128] @ replicate z 0 @ be_bytes 8 (8 * l))"

fun be_words :: "nat list \<Rightarrow> w32 list" where
  "be_words (a # b # c # d # rest) =
     word_of_nat (((a * 256 + b) * 256 + c) * 256 + d) # be_words rest"
| "be_words _ = []"

fun blocks :: "w32 list \<Rightarrow> w32 list list" where
  "blocks [] = []"
| "blocks ws = take 16 ws # blocks (drop 16 ws)"

text \<open>The message schedule, built newest-first: the list holds W[t-1], W[t-2], ...\<close>

fun schedule :: "nat \<Rightarrow> w32 list \<Rightarrow> w32 list" where
  "schedule 0 ws = ws"
| "schedule (Suc n) ws =
     schedule n ((sigma1 (ws ! 1) + ws ! 6 + sigma0 (ws ! 14) + ws ! 15) # ws)"

fun rounds :: "w32 list \<Rightarrow> w32 list \<Rightarrow> sha_state \<Rightarrow> sha_state" where
  "rounds (k # ks) (w # ws) (a, b, c, d, e, f, g, h) =
     (let t1 = h + Sigma1 e + Ch e f g + k + w;
          t2 = Sigma0 a + Maj a b c
      in rounds ks ws (t1 + t2, a, b, c, d + t1, e, f, g))"
| "rounds [] ws st = st"
| "rounds ks [] st = st"

definition compress :: "sha_state \<Rightarrow> w32 list \<Rightarrow> sha_state" where
  "compress st block =
     (case (st, rounds K256 (rev (schedule 48 (rev block))) st) of
        ((a, b, c, d, e, f, g, h), (a', b', c', d', e', f', g', h')) \<Rightarrow>
          (a + a', b + b', c + c', d + d', e + e', f + f', g + g', h + h'))"

text \<open>The digest as 64 lower-case hexadecimal digits.\<close>

definition hex_digit :: "nat \<Rightarrow> char" where
  "hex_digit d = (if d < 10 then char_of (48 + d) else char_of (87 + d))"

definition hex32 :: "w32 \<Rightarrow> string" where
  "hex32 x = map (\<lambda>i. hex_digit ((unat x div 16 ^ (7 - i)) mod 16)) [0..<8]"

definition sha256_hex :: "string \<Rightarrow> string" where
  "sha256_hex s =
     (case foldl compress H256 (blocks (be_words (sha_pad (map of_char s)))) of
        (a, b, c, d, e, f, g, h) \<Rightarrow> concat (map hex32 [a, b, c, d, e, f, g, h]))"

subsection \<open>\<open>Date.prototype.toISOString\<close>\<close>

text \<open>
  A \<open>Date\<close> is modelled by its time value, the number of milliseconds since the epoch.
  The day number, the year, the month and the day of the month follow the definitions of
  ECMAScript (\<open>Day\<close>, \<open>DayFromYear\<close>, \<open>YearFromTime\<close>, \<open>MonthFromTime\<close>,
  \<open>DateFromTime\<close>); the year is found by a search upward from a year that is not too late.
\<close>

definition msPerDay :: int where
  "msPerDay = 86400000"

definition Day :: "int \<Rightarrow> int" where
  "Day t = t div msPerDay"

definition TimeWithinDay :: "int \<Rightarrow> int" where
  "TimeWithinDay t = t mod msPerDay"

definition DayFromYear :: "int \<Rightarrow> int" where
  "DayFromYear y =
     365 * (y - 1970) + (y - 1969) div 4 - (y - 1901) div 100 + (y - 1601) div 400"

definition InLeapYear :: "int \<Rightarrow> bool" where
  "InLeapYear y = (y mod 4 = 0 \<and> (y mod 100 \<noteq> 0 \<or> y mod 400 = 0))"

function yearSearch :: "int \<Rightarrow> int \<Rightarrow> int" where
  "yearSearch d y = (if DayFromYear (y + 1) \<le> d then yearSearch d (y + 1) else y)"
  by pat_completeness auto
termination
  by (relation "measure (\<lambda>(d, y). nat (d + 1 - DayFromYear (y + 1)))")
     (auto simp: DayFromYear_def)

declare yearSearch.simps [simp del]

definition YearFromDay :: "int \<Rightarrow> int" where
  "YearFromDay d = yearSearch d (1970 + (if 0 \<le> d then d div 366 else d div 365))"

definition monthStarts :: "bool \<Rightarrow> int list" where
  "monthStarts leap =
     (if leap then [0, 31, 60, 91, 121, 152, 182, 213, 244, 274, 305, 335]
      else [0, 31, 59, 90, 120, 151, 181, 212, 243, 273, 304, 334])"

definition MonthFromDay :: "bool \<Rightarrow> int \<Rightarrow> nat" where
  "MonthFromDay leap dayInYear =
     length (filter (\<lambda>s. s \<le> dayInYear) (monthStarts leap)) - 1"

definition padStart :: "nat \<Rightarrow> nat \<Rightarrow> string" where
  "padStart k n = replicate (k - length (nat_toString n)) (CHR ''0'') @ nat_toString n"

definition yearText :: "int \<Rightarrow> string" where
  "yearText y =
     (if 0 \<le> y \<and> y \<le> 9999 then padStart 4 (nat y)
      else (if y < 0 then CHR ''-'' else CHR ''+'') # padStart 6 (nat \<bar>y\<bar>))"

definition toISOString :: "int \<Rightarrow> string" where
  "toISOString t =
     (let d = Day t; ms = TimeWithinDay t;
          y = YearFromDay d;
          dayInYear = d - DayFromYear y;
          leap = InLeapYear y;
          m = MonthFromDay leap dayInYear;
          dt = dayInYear - monthStarts leap ! m + 1
      in yearText y @ ''-'' @ padStart 2 (m + 1) @ ''-'' @ padStart 2 (nat dt) @ ''T'' @
         padStart 2 (nat (ms div 3600000)) @ '':'' @
         padStart 2 (nat ((ms div 60000) mod 60)) @ '':'' @
         padStart 2 (nat ((ms div 1000) mod 60)) @ ''.'' @
         padStart 3 (nat (ms mod 1000)) @ ''Z'')"

subsection \<open>Records and their hash\<close>

datatype VaultType = BC | AMM | UNKNOWN

text \<open>
  A proof-of-history record. \<open>poh_timestamp\<close> is the time value of the \<open>Date\<close>; the
  optional fields \<open>slot\<close> and \<open>tokenSymbol\<close> are options. The same type stands for a row
  of the table \<open>poh_records\<close>, where \<open>None\<close> is \<open>NULL\<close>.
\<close>

record PoHRecord =
  sequence :: int
  hash :: string
  prevHash :: string
  poh_timestamp :: int
  slot :: "int option"
  poh_eventType :: FeeEventType
  vault :: VaultType
  tokenMint :: string
  tokenSymbol :: "string option"
  poh_amountLamports :: int
  poh_signature :: string

type_synonym digest = "string \<Rightarrow> string"

definition GENESIS_HASH :: string where
  "GENESIS_HASH = replicate 64 (CHR ''0'')"

definition eventTypeText :: "FeeEventType \<Rightarrow> string" where
  "eventTypeText ty =
     (case ty of Collect \<Rightarrow> ''collect'' | Burn \<Rightarrow> ''burn'' | Withdraw \<Rightarrow> ''withdraw'')"

definition vaultText :: "VaultType \<Rightarrow> string" where
  "vaultText v = (case v of BC \<Rightarrow> ''BC'' | AMM \<Rightarrow> ''AMM'' | UNKNOWN \<Rightarrow> ''UNKNOWN'')"

text \<open>\<open>Array.prototype.join\<close> with a separator.\<close>

fun join :: "string \<Rightarrow> string list \<Rightarrow> string" where
  "join sep [] = []"
| "join sep [x] = x"
| "join sep (x # y # ys) = x @ sep @ join sep (y # ys)"

text \<open>
  \<open>generateHash\<close>: the digest of nine fields joined by a bar. The slot is rendered by
  \<open>record.slot?.toString() || "0"\<close>. The fields \<open>hash\<close> and \<open>tokenSymbol\<close> of the
  record are not read.
\<close>

definition slotText :: "int option \<Rightarrow> string" where
  "slotText s =
     (case s of
        None \<Rightarrow> ''0''
      | Some n \<Rightarrow> (if number_toString n = [] then ''0'' else number_toString n))"

definition hashData :: "PoHRecord \<Rightarrow> string" where
  "hashData record =
     join ''|''
       [number_toString (sequence record),
        prevHash record,
        toISOString (poh_timestamp record),
        slotText (slot record),
        eventTypeText (poh_eventType record),
        vaultText (vault record),
        tokenMint record,
        bigint_toString (poh_amountLamports record),
        poh_signature record]"

definition generateHash :: "digest \<Rightarrow> PoHRecord \<Rightarrow> string" where
  "generateHash H record = H (hashData record)"

definition verifyRecordHash :: "digest \<Rightarrow> PoHRecord \<Rightarrow> bool" where
  "verifyRecordHash H record = (hash record = generateHash H record)"

subsection \<open>\<open>verifyChain\<close>\<close>

record VerifyResult =
  valid :: bool
  invalidAt :: "nat option"
  error :: "string option"

definition chainValid :: VerifyResult where
  "chainValid = \<lparr> valid = True, invalidAt = None, error = None \<rparr>"

definition chainInvalid :: "nat \<Rightarrow> string \<Rightarrow> VerifyResult" where
  "chainInvalid i msg = \<lparr> valid = False, invalidAt = Some i, error = Some msg \<rparr>"

definition recordError :: "PoHRecord \<Rightarrow> string \<Rightarrow> string" where
  "recordError record what = ''Record '' @ number_toString (sequence record) @ '': '' @ what"

text \<open>
  The loop of \<open>verifyChain\<close> over the sorted records, from index \<open>i\<close>: the hash of the
  record, then (except at index 0) the link to the previous record and the sequence
  number. It returns at the first check that fails.
\<close>

function verifyLoop :: "digest \<Rightarrow> PoHRecord list \<Rightarrow> nat \<Rightarrow> VerifyResult" where
  "verifyLoop H sortedRecs i =
     (if i < length sortedRecs then
        (let record = sortedRecs ! i in
         if \<not> verifyRecordHash H record then
           chainInvalid i (recordError record ''Hash mismatch'')
         else if i > 0 \<and> prevHash record \<noteq> hash (sortedRecs ! (i - 1)) then
           chainInvalid i (recordError record ''Chain link broken'')
         else if i > 0 \<and> sequence record \<noteq> sequence (sortedRecs ! (i - 1)) + 1 then
           chainInvalid i (recordError record ''Sequence gap detected'')
         else verifyLoop H sortedRecs (i + 1))
      else chainValid)"
  by pat_completeness auto
termination
  by (relation "measure (\<lambda>(H, sortedRecs, i). length sortedRecs - i)") auto

declare verifyLoop.simps [simp del]

text \<open>
  \<open>verifyChain\<close>: an empty list is valid; the records are sorted by sequence number
  (\<open>Array.prototype.sort\<close> is stable, as \<open>sort_key\<close> is); the first record must link to
  the genesis hash if its sequence number is 1; then the loop runs.
\<close>

definition verifyChain :: "digest \<Rightarrow> PoHRecord list \<Rightarrow> VerifyResult" where
  "verifyChain H records =
     (if length records = 0 then chainValid
      else
        (let sortedRecs = sort_key sequence records in
         if prevHash (sortedRecs ! 0) \<noteq> GENESIS_HASH \<and> sequence (sortedRecs ! 0) = 1 then
           chainInvalid 0 ''First record does not link to genesis hash''
         else verifyLoop H sortedRecs 0))"

subsection \<open>The chain manager\<close>

text \<open>
  The state of a \<open>PoHChainManager\<close>, and the table \<open>poh_records\<close> as a list of rows in
  insertion order. The table has a unique index on \<open>hash\<close> and one on the pair
  \<open>(token_mint, sequence)\<close>: \<open>prisma.poHRecord.create\<close> fails with \<open>P2002\<close> on a row
  that repeats either.
\<close>

record PoHChainManager =
  mgr_tokenMint :: string
  lastHash :: string
  lastSequence :: int

definition newPoHChainManager :: "string \<Rightarrow> PoHChainManager" where
  "newPoHChainManager mintAddress =
     \<lparr> mgr_tokenMint = mintAddress, lastHash = GENESIS_HASH, lastSequence = 0 \<rparr>"

record PoHEvent =
  ev_eventType :: FeeEventType
  ev_vault :: VaultType
  ev_amountLamports :: int
  ev_signature :: string
  ev_tokenSymbol :: "string option"
  ev_slot :: "int option"

definition poHRecord_create :: "PoHRecord list \<Rightarrow> PoHRecord \<Rightarrow> db_error + PoHRecord list" where
  "poHRecord_create rows row =
     (if list_ex (\<lambda>r. hash r = hash row \<or>
                       (tokenMint r = tokenMint row \<and> sequence r = sequence row)) rows
      then Inl P2002
      else Inr (rows @ [row]))"

text \<open>
  \<open>initialize\<close> reads the record of the token with the greatest sequence number, if there
  is one.
\<close>

definition initialize :: "PoHChainManager \<Rightarrow> PoHRecord list \<Rightarrow> PoHChainManager" where
  "initialize mgr rows =
     (case rev (sort_key sequence (filter (\<lambda>r. tokenMint r = mgr_tokenMint mgr) rows)) of
        [] \<Rightarrow> mgr
      | lastRecord # _ \<Rightarrow> mgr \<lparr> lastHash := hash lastRecord, lastSequence := sequence lastRecord \<rparr>)"

text \<open>
  \<open>addEvent\<close>, with the reading of the clock (\<open>new Date()\<close>) as the argument \<open>now\<close>. The
  record is hashed, then written; only after the write the manager advances. A failed
  write rejects the call and leaves the manager and the table as they were.
\<close>

definition sealRecord :: "digest \<Rightarrow> PoHRecord \<Rightarrow> PoHRecord" where
  "sealRecord H recordData = recordData \<lparr> hash := generateHash H recordData \<rparr>"

definition nextRecord :: "digest \<Rightarrow> int \<Rightarrow> PoHChainManager \<Rightarrow> PoHEvent \<Rightarrow> PoHRecord" where
  "nextRecord H now mgr event =
     sealRecord H
       \<lparr> sequence = lastSequence mgr + 1, hash = [], prevHash = lastHash mgr,
         poh_timestamp = now, slot = ev_slot event,
         poh_eventType = ev_eventType event, vault = ev_vault event,
         tokenMint = mgr_tokenMint mgr, tokenSymbol = ev_tokenSymbol event,
         poh_amountLamports = ev_amountLamports event,
         poh_signature = ev_signature event \<rparr>"

definition advance :: "PoHChainManager \<Rightarrow> PoHRecord \<Rightarrow> PoHChainManager" where
  "advance mgr record = mgr \<lparr> lastHash := hash record, lastSequence := sequence record \<rparr>"

definition addEvent ::
  "digest \<Rightarrow> int \<Rightarrow> PoHChainManager \<times> PoHRecord list \<Rightarrow> PoHEvent
     \<Rightarrow> db_error + (PoHRecord \<times> PoHChainManager \<times> PoHRecord list)" where
  "addEvent H now st event =
     (case st of
        (mgr, rows) \<Rightarrow>
          (let record = nextRecord H now mgr event
           in case poHRecord_create rows record of
                Inl e \<Rightarrow> Inl e
              | Inr rows' \<Rightarrow> Inr (record, advance mgr record, rows')))"

text \<open>
  A caller that appends a list of events, each with its clock reading, and goes on after
  a rejected append, as the realtime tracker does (it logs the error).
\<close>

fun addEvents ::
  "digest \<Rightarrow> PoHChainManager \<times> PoHRecord list \<Rightarrow> (PoHEvent \<times> int) list
     \<Rightarrow> PoHChainManager \<times> PoHRecord list" where
  "addEvents H st [] = st"
| "addEvents H st ((event, now) # rest) =
     (case addEvent H now st event of
        Inl e \<Rightarrow> addEvents H st rest
      | Inr (record, st') \<Rightarrow> addEvents H st' rest)"

text \<open>
  \<open>getFullChain\<close>: the rows of the token in ascending order of sequence, with
  \<open>r.slot || undefined\<close> and \<open>r.tokenSymbol || undefined\<close>.
\<close>

definition fromRow :: "PoHRecord \<Rightarrow> PoHRecord" where
  "fromRow r =
     r \<lparr> slot := (case slot r of None \<Rightarrow> None | Some n \<Rightarrow> if n = 0 then None else Some n),
         tokenSymbol :=
           (case tokenSymbol r of None \<Rightarrow> None | Some s \<Rightarrow> if s = [] then None else Some s) \<rparr>"

definition getFullChain :: "PoHChainManager \<Rightarrow> PoHRecord list \<Rightarrow> PoHRecord list" where
  "getFullChain mgr rows =
     map fromRow (sort_key sequence (filter (\<lambda>r. tokenMint r = mgr_tokenMint mgr) rows))"

definition verifyFullChain :: "digest \<Rightarrow> PoHChainManager \<Rightarrow> PoHRecord list \<Rightarrow> VerifyResult \<times> nat" where
  "verifyFullChain H mgr rows =
     (let chain = getFullChain mgr rows in (verifyChain H chain, length chain))"

text \<open>Two records that agree in every field but \<open>tokenSymbol\<close>.\<close>

definition sameExceptSymbol :: "PoHRecord \<Rightarrow> PoHRecord \<Rightarrow> bool" where
  "sameExceptSymbol a b = (a \<lparr> tokenSymbol := None \<rparr> = b \<lparr> tokenSymbol := None \<rparr>)"

text \<open>
  The checks that \<open>verifyChain\<close> makes at index \<open>i\<close> of the sorted list, as one predicate.
\<close>

definition checksAt :: "digest \<Rightarrow> PoHRecord list \<Rightarrow> nat \<Rightarrow> bool" where
  "checksAt H sortedRecs i =
     (verifyRecordHash H (sortedRecs ! i) \<and>
      (i > 0 \<longrightarrow> prevHash (sortedRecs ! i) = hash (sortedRecs ! (i - 1)) \<and>
                 sequence (sortedRecs ! i) = sequence (sortedRecs ! (i - 1)) + 1))"

text \<open>
  The chain integrity invariant of the specification, for a list of records in chain
  order that follows a record with hash \<open>p\<close> and sequence number \<open>s\<close>: every record has
  the right hash, links to its predecessor and continues the sequence.
\<close>

fun linkedFrom :: "digest \<Rightarrow> string \<Rightarrow> int \<Rightarrow> PoHRecord list \<Rightarrow> bool" where
  "linkedFrom H p s [] = True"
| "linkedFrom H p s (r # rs) =
     (verifyRecordHash H r \<and> prevHash r = p \<and> sequence r = s + 1 \<and>
      linkedFrom H (hash r) (sequence r) rs)"

fun chainTail :: "string \<Rightarrow> int \<Rightarrow> PoHRecord list \<Rightarrow> string \<times> int" where
  "chainTail p s [] = (p, s)"
| "chainTail p s (r # rs) = chainTail (hash r) (sequence r) rs"

text \<open>A digest that returns its input, for examples that are evaluated.\<close>

definition plainDigest :: digest where
  "plainDigest s = s"

text \<open>Example events with their clock readings, and the records three appends store.\<close>

definition examplePoHEvent :: "FeeEventType \<Rightarrow> int \<Rightarrow> string \<Rightarrow> PoHEvent" where
  "examplePoHEvent ty amt sig =
     \<lparr> ev_eventType = ty, ev_vault = BC, ev_amountLamports = amt, ev_signature = sig,
       ev_tokenSymbol = Some ''TKN'', ev_slot = Some 250000000 \<rparr>"

definition exampleAppends :: "(PoHEvent \<times> int) list" where
  "exampleAppends =
     [(examplePoHEvent Collect 1000000000 ''sigA'', 1700000000000),
      (examplePoHEvent Burn 400000000 ''sigB'', 1700000001000),
      (examplePoHEvent Withdraw 100000000 ''sigC'', 1700000002000)]"

definition exampleRecord1 :: "digest \<Rightarrow> PoHRecord" where
  "exampleRecord1 H =
     nextRecord H 1700000000000 (newPoHChainManager ''mint'')
       (examplePoHEvent Collect 1000000000 ''sigA'')"

definition exampleRecord2 :: "digest \<Rightarrow> PoHRecord" where
  "exampleRecord2 H =
     nextRecord H 1700000001000 (advance (newPoHChainManager ''mint'') (exampleRecord1 H))
       (examplePoHEvent Burn 400000000 ''sigB'')"

definition exampleRecord3 :: "digest \<Rightarrow> PoHRecord" where
  "exampleRecord3 H =
     nextRecord H 1700000002000
       (advance (advance (newPoHChainManager ''mint'') (exampleRecord1 H)) (exampleRecord2 H))
       (examplePoHEvent Withdraw 100000000 ''sigC'')"

section \<open>Properties of the runtime conversions\<close>

lemma digit_val_digit_char: "d < 10 \<Longrightarrow> digit_val (digit_char d) = d"
  by (simp add: digit_val_def digit_char_def)

lemma isDigit_digit_char: "d < 10 \<Longrightarrow> isDigit (digit_char d)"
  by (simp add: isDigit_def digit_char_def)

lemma digits_value_snoc: "digits_value (s @ [c]) = 10 * digits_value s + digit_val c"
  by (simp add: digits_value_def)

lemma digits_value_nat_toString: "digits_value (nat_toString n) = n"
proof (induction n rule: nat_toString.induct)
  case (1 n)
  show ?case
  proof (cases "n < 10")
    case True
    then show ?thesis
      by (subst nat_toString.simps) (simp add: digits_value_def digit_val_digit_char)
  next
    case False
    then have "digits_value (nat_toString (n div 10)) = n div 10"
      using 1 by simp
    with False show ?thesis
      by (subst nat_toString.simps) (simp add: digits_value_snoc digit_val_digit_char)
  qed
qed

lemma isDigitString_nat_toString: "isDigitString (nat_toString n)"
proof (induction n rule: nat_toString.induct)
  case (1 n)
  show ?case
  proof (cases "n < 10")
    case True
    then show ?thesis
      by (subst nat_toString.simps) (simp add: isDigitString_def isDigit_digit_char)
  next
    case False
    then have "isDigitString (nat_toString (n div 10))"
      using 1 by simp
    with False show ?thesis
      by (subst nat_toString.simps) (simp add: isDigitString_def isDigit_digit_char)
  qed
qed

lemma isDigit_not_ws: "isDigit c \<Longrightarrow> \<not> isWhiteSpace c"
  by (auto simp: isDigit_def isWhiteSpace_def)

lemma isDigit_not_sign: "isDigit c \<Longrightarrow> c \<noteq> CHR ''-'' \<and> c \<noteq> CHR ''+''"
  by (auto simp: isDigit_def)

lemma dropWhile_rev_last:
  assumes "xs \<noteq> []" and "\<not> P (last xs)"
  shows "dropWhile P (rev xs) = rev xs"
proof -
  from assms(1) obtain ys y where xs: "xs = ys @ [y]"
    by (metis rev_exhaust)
  with assms(2) show ?thesis
    by simp
qed

lemma trim_no_space:
  assumes "xs \<noteq> []" and "\<not> isWhiteSpace (hd xs)" and "\<not> isWhiteSpace (last xs)"
  shows "trim xs = xs"
proof -
  from assms(1,2) have "dropWhile isWhiteSpace xs = xs"
    by (cases xs) simp_all
  then show ?thesis
    using assms(1,3) by (simp add: trim_def dropWhile_rev_last)
qed

lemma isDigitString_ends:
  assumes "isDigitString s"
  shows "s \<noteq> [] \<and> isDigit (hd s) \<and> isDigit (last s)"
proof -
  from assms have ne: "s \<noteq> []" and ds: "\<forall>c \<in> set s. isDigit c"
    by (simp_all add: isDigitString_def list_all_iff)
  from ne have "hd s \<in> set s" and "last s \<in> set s"
    by simp_all
  with ne ds show ?thesis
    by blast
qed

lemma trim_digits:
  assumes "isDigitString s"
  shows "trim s = s"
  using isDigitString_ends[OF assms] by (simp add: trim_no_space isDigit_not_ws)

lemma BigInt_string_digits:
  assumes "isDigitString s"
  shows "BigInt_string s = Some (int (digits_value s))"
proof -
  from isDigitString_ends[OF assms] obtain c r where s: "s = c # r" and c: "isDigit c"
    by (cases s) auto
  show ?thesis
    using assms c isDigit_not_sign[OF c] by (simp add: BigInt_string_def trim_digits s)
qed

text \<open>
  The decimal text of a bigint parses back to the same bigint: \<open>BigInt(n.toString()) = n\<close>.
\<close>

lemma BigInt_string_toString: "BigInt_string (bigint_toString i) = Some i"
proof (cases "i < 0")
  case True
  let ?s = "nat_toString (nat (- i))"
  have d: "isDigitString ?s"
    by (rule isDigitString_nat_toString)
  have "trim (CHR ''-'' # ?s) = CHR ''-'' # ?s"
  proof (rule trim_no_space)
    show "CHR ''-'' # ?s \<noteq> []"
      by simp
    show "\<not> isWhiteSpace (hd (CHR ''-'' # ?s))"
      by (simp add: isWhiteSpace_def)
    show "\<not> isWhiteSpace (last (CHR ''-'' # ?s))"
      using isDigitString_ends[OF d] by (simp add: isDigit_not_ws)
  qed
  with True d show ?thesis
    by (simp add: BigInt_string_def bigint_toString_def digits_value_nat_toString)
next
  case False
  then show ?thesis
    by (simp add: bigint_toString_def BigInt_string_digits isDigitString_nat_toString
        digits_value_nat_toString)
qed

subsection \<open>Rounding to a double\<close>


lemma bit_length_0: "bit_length 0 = 0"
  by (subst bit_length.simps) simp

lemma bit_length_1: "bit_length (Suc 0) = Suc 0"
  by (subst bit_length.simps) (simp add: bit_length_0)

lemma bit_length_bounds:
  "0 < n \<Longrightarrow> 2 ^ (bit_length n - 1) \<le> n \<and> n < 2 ^ bit_length n"
proof (induction n rule: bit_length.induct)
  case (1 n)
  show ?case
  proof (cases "n div 2 = 0")
    case True
    with 1(2) have "n = 1"
      by (simp add: div_eq_0_iff) 
    then show ?thesis
      by (simp add: bit_length_1)
  next
    case False
    then have pos: "0 < n div 2"
      by simp
    from 1(1)[OF _ pos] 1(2)
    have ih: "2 ^ (bit_length (n div 2) - 1) \<le> n div 2" "n div 2 < 2 ^ bit_length (n div 2)"
      by simp_all
    have l: "bit_length n = Suc (bit_length (n div 2))"
      using 1(2) by (subst bit_length.simps) simp
    have "0 < bit_length (n div 2)"
      using pos by (subst bit_length.simps) simp
    then obtain k where k: "bit_length (n div 2) = Suc k"
      by (cases "bit_length (n div 2)") simp_all
    from ih show ?thesis
      unfolding l k by simp linarith
  qed
qed

lemma powi_diff_nat: "(2 :: rat) powi (int m - int n) = 2 ^ m / 2 ^ n"
  by (simp add: power_int_diff)

lemma binary_exponent_spec:
  assumes "0 < x"
  shows "2 powi binary_exponent x \<le> x \<and> x < 2 powi (binary_exponent x + 1)"
proof -
  obtain a b where q: "quotient_of x = (a, b)"
    by (cases "quotient_of x")
  then have b: "0 < b" and x: "x = of_int a / of_int b"
    by (simp_all add: quotient_of_denom_pos quotient_of_div)
  from assms x b have a: "0 < a"
    by (simp add: zero_less_divide_iff)
  define la where "la = bit_length (nat a)"
  define lb where "lb = bit_length (nat b)"
  define k where "k = int la - int lb"
  from bit_length_bounds[of "nat a"] a have "nat a < 2 ^ la" and "2 ^ (la - 1) \<le> nat a"
    by (simp_all add: la_def)
  then have a1: "of_int a < (2 :: rat) ^ la" and a2: "(2 :: rat) ^ (la - 1) \<le> of_int a"
    using a by (metis of_nat_nat less_imp_le of_nat_less_iff of_nat_numeral of_nat_power of_int_of_nat_eq,
        metis of_nat_nat less_imp_le of_nat_le_iff of_nat_numeral of_nat_power of_int_of_nat_eq)
  from bit_length_bounds[of "nat b"] b have "nat b < 2 ^ lb" and "2 ^ (lb - 1) \<le> nat b"
    by (simp_all add: lb_def)
  then have b1: "of_int b < (2 :: rat) ^ lb" and b2: "(2 :: rat) ^ (lb - 1) \<le> of_int b"
    using b by (metis of_nat_nat less_imp_le of_nat_less_iff of_nat_numeral of_nat_power of_int_of_nat_eq,
        metis of_nat_nat less_imp_le of_nat_le_iff of_nat_numeral of_nat_power of_int_of_nat_eq)
  have la: "0 < la"
    using a unfolding la_def by (subst bit_length.simps) simp
  have lb: "0 < lb"
    using b unfolding lb_def by (subst bit_length.simps) simp
  have bpos: "(0 :: rat) < of_int b"
    using b by simp
  have upper: "x < 2 powi (k + 1)"
  proof -
    have "x * of_int b = of_int a"
      using bpos by (simp add: x)
    have "of_int a < (2 :: rat) ^ la"
      by (rule a1)
    also have "\<dots> = 2 powi (k + 1) * 2 ^ (lb - 1)"
    proof -
      have "k + 1 = int la - int (lb - 1)"
        using lb by (simp add: k_def)
      then show ?thesis
        by (simp add: powi_diff_nat)
    qed
    also have "\<dots> \<le> 2 powi (k + 1) * of_int b"
      using b2 by (intro mult_left_mono) simp_all
    finally have "(of_int a :: rat) / of_int b < 2 powi (k + 1)"
      using bpos by (simp add: pos_divide_less_eq)
    then show ?thesis
      by (simp add: x)
  qed
  have lower: "2 powi (k - 1) < x"
  proof -
    have "2 powi (k - 1) * of_int b < 2 powi (k - 1) * (2 :: rat) ^ lb"
      using b1 by (intro mult_strict_left_mono) simp_all
    also have "\<dots> = 2 ^ (la - 1)"
    proof -
      have "k - 1 = int (la - 1) - int lb"
        using la by (simp add: k_def)
      then show ?thesis
        by (simp add: powi_diff_nat)
    qed
    also have "\<dots> \<le> of_int a"
      by (rule a2)
    finally have "2 powi (k - 1) < (of_int a :: rat) / of_int b"
      using bpos by (simp add: pos_less_divide_eq)
    then show ?thesis
      by (simp add: x)
  qed
  have e: "binary_exponent x = (if 2 powi k \<le> x then k else k - 1)"
    by (simp add: binary_exponent_def q k_def la_def lb_def Let_def)
  show ?thesis
  proof (cases "2 powi k \<le> x")
    case True
    with upper e show ?thesis
      by simp
  next
    case False
    with lower e show ?thesis
      by simp
  qed
qed

lemma powi_two_less_iff: "(2 :: rat) powi a < 2 powi b \<longleftrightarrow> a < b"
proof
  assume "(2 :: rat) powi a < 2 powi b"
  show "a < b"
  proof (rule ccontr)
    assume "\<not> a < b"
    then have "(2 :: rat) powi b \<le> 2 powi a"
      by (intro power_int_increasing) simp_all
    with \<open>(2 :: rat) powi a < 2 powi b\<close> show False
      by simp
  qed
next
  assume "a < b"
  then show "(2 :: rat) powi a < 2 powi b"
    by (intro power_int_strict_increasing) simp_all
qed

lemma powi_two_le_iff: "(2 :: rat) powi a \<le> 2 powi b \<longleftrightarrow> a \<le> b"
  using powi_two_less_iff[of b a] by (auto simp: not_less[symmetric])

lemma binary_exponent_unique:
  assumes "2 powi e \<le> x" and "x < 2 powi (e + 1)"
  shows "binary_exponent x = e"
proof -
  have pos: "0 < x"
    using assms(1) by (rule less_le_trans[rotated]) simp
  note s = binary_exponent_spec[OF pos]
  from s assms have "(2 :: rat) powi e < 2 powi (binary_exponent x + 1)"
    and "(2 :: rat) powi binary_exponent x < 2 powi (e + 1)"
    by linarith+
  then have "e < binary_exponent x + 1" and "binary_exponent x < e + 1"
    by (simp_all add: powi_two_less_iff)
  then show ?thesis
    by simp
qed

lemma binary_exponent_mono:
  assumes "0 < x" and "x \<le> y"
  shows "binary_exponent x \<le> binary_exponent y"
proof -
  from assms have "0 < y"
    by simp
  from binary_exponent_spec[OF assms(1)] binary_exponent_spec[OF this] assms(2)
  have "(2 :: rat) powi binary_exponent x < 2 powi (binary_exponent y + 1)"
    by linarith
  then show ?thesis
    by (simp add: powi_two_less_iff)
qed


lemma round_half_even_error:
  "\<bar>of_int (round_half_even x) - x\<bar> \<le> 1 / 2"
proof -
  define f where "f = \<lfloor>x\<rfloor>"
  have b: "of_int f \<le> x" "x < of_int f + 1"
    unfolding f_def by linarith+
  consider "x - of_int f < 1 / 2" | "1 / 2 < x - of_int f" | "x - of_int f = 1 / 2"
    by linarith
  then show ?thesis
  proof cases
    case 1
    then have "round_half_even x = f"
      by (simp add: round_half_even_def f_def)
    with 1 b show ?thesis
      by simp
  next
    case 2
    then have "round_half_even x = f + 1"
      by (simp add: round_half_even_def f_def)
    with 2 b show ?thesis
      by simp
  next
    case 3
    then have "round_half_even x = f \<or> round_half_even x = f + 1"
      by (simp add: round_half_even_def f_def Let_def)
    with 3 b show ?thesis
      by auto
  qed
qed

lemma round_half_even_of_int: "round_half_even (of_int n) = n"
  by (simp add: round_half_even_def)

lemma round_half_even_mono:
  assumes "x \<le> y"
  shows "round_half_even x \<le> round_half_even y"
proof -
  have fx: "of_int \<lfloor>x\<rfloor> \<le> x" "x < of_int \<lfloor>x\<rfloor> + 1"
    and fy: "of_int \<lfloor>y\<rfloor> \<le> y" "y < of_int \<lfloor>y\<rfloor> + 1"
    by linarith+
  have le: "\<lfloor>x\<rfloor> \<le> \<lfloor>y\<rfloor>"
    using assms by (rule floor_mono)
  have lo: "\<lfloor>y\<rfloor> \<le> round_half_even y"
    unfolding round_half_even_def Let_def by simp
  have hi: "round_half_even x \<le> \<lfloor>x\<rfloor> + 1"
    unfolding round_half_even_def Let_def by simp
  show ?thesis
  proof (cases "\<lfloor>x\<rfloor> = \<lfloor>y\<rfloor>")
    case True
    with assms show ?thesis
      unfolding round_half_even_def Let_def by auto
  next
    case False
    with le have "\<lfloor>x\<rfloor> + 1 \<le> \<lfloor>y\<rfloor>"
      by simp
    with lo hi show ?thesis
      by simp
  qed
qed

lemma powi_two_pos: "(0 :: rat) < 2 powi p"
  by (simp add: zero_less_power_int)

lemma round_to_multiple_mono:
  "x \<le> y \<Longrightarrow> round_to_multiple p x \<le> round_to_multiple p y"
proof -
  assume "x \<le> y"
  then have "x / 2 powi p \<le> y / 2 powi p"
    using powi_two_pos[of p] by (simp add: divide_right_mono)
  then have "round_half_even (x / 2 powi p) \<le> round_half_even (y / 2 powi p)"
    by (rule round_half_even_mono)
  then have "(of_int (round_half_even (x / 2 powi p)) :: rat) \<le>
      of_int (round_half_even (y / 2 powi p))"
    by simp
  then show ?thesis
    unfolding round_to_multiple_def using powi_two_pos[of p]
    by (simp add: mult_right_mono)
qed

lemma round_to_multiple_exact:
  "round_to_multiple p (of_int m * 2 powi p) = of_int m * 2 powi p"
  unfolding round_to_multiple_def by (simp add: round_half_even_of_int)

lemma round_to_multiple_power:
  assumes "p \<le> e"
  shows "round_to_multiple p (2 powi e) = 2 powi e"
proof -
  have "(2 :: rat) powi e = 2 powi (e - p) * 2 powi p"
    by (simp add: power_int_add[symmetric])
  also have "(2 :: rat) powi (e - p) = of_int (2 ^ nat (e - p))"
    using assms by (simp add: power_int_nonneg_exp)
  finally have "(2 :: rat) powi e = of_int (2 ^ nat (e - p)) * 2 powi p" .
  then show ?thesis
    using round_to_multiple_exact[of p "2 ^ nat (e - p)"] by simp
qed

lemma round_to_multiple_error:
  "\<bar>round_to_multiple p x - x\<bar> \<le> 2 powi p / 2"
proof -
  have "round_to_multiple p x - x = (of_int (round_half_even (x / 2 powi p)) - x / 2 powi p) * 2 powi p"
    using powi_two_pos[of p] by (simp add: round_to_multiple_def algebra_simps)
  then have "\<bar>round_to_multiple p x - x\<bar> =
      \<bar>of_int (round_half_even (x / 2 powi p)) - x / 2 powi p\<bar> * 2 powi p"
    using powi_two_pos[of p] by (simp add: abs_mult)
  also have "\<dots> \<le> 1 / 2 * 2 powi p"
    using powi_two_pos[of p]
    by (intro mult_right_mono round_half_even_error) simp_all
  finally show ?thesis
    by simp
qed

lemma round_to_multiple_nonneg: "0 \<le> x \<Longrightarrow> 0 \<le> round_to_multiple p x"
  using round_to_multiple_mono[of 0 x p] round_to_multiple_exact[of p 0] by simp

lemma round_positive_eq:
  "round_positive x =
     (if round_to_multiple (quantum x) x < 2 ^ 1024
      then Finite (round_to_multiple (quantum x) x) else PosInfinity)"
  by (simp add: round_positive_def Let_def)

lemma round_to_quantum_mono:
  assumes "0 < x" and "x \<le> y"
  shows "round_to_multiple (quantum x) x \<le> round_to_multiple (quantum y) y"
proof -
  from assms have ypos: "0 < y"
    by simp
  note sx = binary_exponent_spec[OF assms(1)]
  note sy = binary_exponent_spec[OF ypos]
  have e: "binary_exponent x \<le> binary_exponent y"
    using assms by (rule binary_exponent_mono)
  then have q: "quantum x \<le> quantum y"
    by (simp add: quantum_def)
  show ?thesis
  proof (cases "quantum x = quantum y")
    case True
    then show ?thesis
      using round_to_multiple_mono[OF assms(2)] by simp
  next
    case False
    with q have lt: "quantum x < quantum y"
      by simp
    then have qy: "quantum y = binary_exponent y - 52"
      and ee: "binary_exponent x + 1 \<le> binary_exponent y"
      by (auto simp: quantum_def max_def split: if_splits)
    define g :: rat where "g = 2 powi binary_exponent y"
    have "x < 2 powi (binary_exponent x + 1)"
      using sx by simp
    also have "\<dots> \<le> g"
      unfolding g_def using ee by (simp add: powi_two_le_iff)
    finally have "x \<le> g"
      by simp
    then have "round_to_multiple (quantum x) x \<le> round_to_multiple (quantum x) g"
      by (rule round_to_multiple_mono)
    also have "\<dots> = g"
      unfolding g_def using lt qy by (intro round_to_multiple_power) simp
    also have "\<dots> = round_to_multiple (quantum y) g"
      unfolding g_def using qy by (intro round_to_multiple_power[symmetric]) simp
    also have "\<dots> \<le> round_to_multiple (quantum y) y"
      using sy by (intro round_to_multiple_mono) (simp add: g_def)
    finally show ?thesis .
  qed
qed

lemma round_positive_mono:
  assumes "0 < x" and "x \<le> y"
  shows "js_le (round_positive x) (round_positive y)"
  using round_to_quantum_mono[OF assms]
  by (simp add: round_positive_eq)

lemma round_positive_nonneg:
  assumes "0 < x"
  shows "js_le (Finite 0) (round_positive x)"
  using round_to_multiple_nonneg[of x "quantum x"] assms
  by (simp add: round_positive_eq)

lemma round_positive_cases:
  "(\<exists>v. round_positive x = Finite v) \<or> round_positive x = PosInfinity"
  by (simp add: round_positive_eq)

lemma js_le_negate: "js_le a b \<Longrightarrow> js_le (js_negate b) (js_negate a)"
  by (cases a; cases b) simp_all

lemma js_le_trans: "js_le a b \<Longrightarrow> js_le b c \<Longrightarrow> js_le a c"
  by (cases a; cases b; cases c) simp_all

lemma js_le_refl: "x \<noteq> NaN \<Longrightarrow> js_le x x"
  by (cases x) simp_all

lemma round_double_not_NaN: "round_double x \<noteq> NaN"
  using round_positive_cases[of x] round_positive_cases[of "- x"]
  by (auto simp: round_double_def)

lemma round_double_mono:
  assumes "x \<le> y"
  shows "js_le (round_double x) (round_double y)"
proof -
  have neg: "js_le (js_negate (round_positive (- x))) (Finite 0)" if "x < 0" for x
    using js_le_negate[OF round_positive_nonneg[of "- x"]] that by simp
  consider "0 < x" | "x = 0" "y = 0" | "x = 0" "0 < y" | "x < 0" "y = 0" | "x < 0" "0 < y"
    | "y < 0"
    using assms by linarith
  then show ?thesis
  proof cases
    case 1
    with assms round_positive_mono[OF 1 assms] show ?thesis
      by (simp add: round_double_def)
  next
    case 2
    then show ?thesis
      by (simp add: round_double_def)
  next
    case 3
    with round_positive_nonneg[of y] show ?thesis
      by (simp add: round_double_def)
  next
    case 4
    with neg[of x] show ?thesis
      by (simp add: round_double_def)
  next
    case 5
    with js_le_trans[OF neg[of x] round_positive_nonneg[of y]] show ?thesis
      by (simp add: round_double_def)
  next
    case 6
    with assms have "0 < - y" "- y \<le> - x" "x < 0"
      by simp_all
    with js_le_negate[OF round_positive_mono[of "- y" "- x"]] 6 show ?thesis
      by (simp add: round_double_def)
  qed
qed


lemma binary_exponent_ge:
  assumes "2 powi e \<le> x"
  shows "e \<le> binary_exponent x"
proof -
  have pos: "0 < x"
    using powi_two_pos[of e] assms by linarith
  from binary_exponent_spec[OF pos] assms
  have "(2 :: rat) powi e < 2 powi (binary_exponent x + 1)"
    by linarith
  then show ?thesis
    by (simp add: powi_two_less_iff)
qed

lemma binary_exponent_le:
  assumes "0 < x" and "x \<le> 2 powi e"
  shows "binary_exponent x \<le> e"
proof -
  from binary_exponent_spec[OF assms(1)] assms(2)
  have "(2 :: rat) powi binary_exponent x \<le> 2 powi e"
    by linarith
  then show ?thesis
    by (simp add: powi_two_le_iff)
qed

lemma round_positive_int:
  assumes "0 < n" and "n \<le> 2 ^ 53"
  shows "round_positive (of_int n) = Finite (of_int n)"
proof -
  define x :: rat where "x = of_int n"
  define e where "e = binary_exponent x"
  have xpos: "0 < x"
    using assms(1) by (simp add: x_def)
  have "(2 :: rat) powi 0 \<le> x"
    using assms(1) by (simp add: x_def)
  then have e0: "0 \<le> e"
    unfolding e_def by (rule binary_exponent_ge)
  have "x \<le> of_int (2 ^ 53)"
    unfolding x_def using assms(2) by (simp only: of_int_le_iff)
  then have x53: "x \<le> 2 powi 53"
    by simp
  with xpos have e53: "e \<le> 53"
    unfolding e_def by (rule binary_exponent_le)
  have q: "quantum x = e - 52"
    using e0 by (simp add: quantum_def e_def)
  have r: "round_to_multiple (e - 52) x = x"
  proof (cases "e = 53")
    case True
    from binary_exponent_spec[OF xpos] have "2 powi 53 \<le> x"
      by (simp add: e_def[symmetric] True)
    with x53 have "x = 2 powi 53"
      by simp
    then show ?thesis
      using round_to_multiple_power[of 1 53] by (simp add: True)
  next
    case False
    with e53 have le: "e \<le> 52"
      by simp
    have "(2 :: rat) powi (52 - e) * 2 powi (e - 52) = 1"
      by (simp add: power_int_add[symmetric])
    moreover have "(2 :: rat) powi (52 - e) = of_int (2 ^ nat (52 - e))"
      using le by (simp add: power_int_nonneg_exp)
    ultimately have "x = of_int (n * 2 ^ nat (52 - e)) * 2 powi (e - 52)"
      by (simp add: x_def mult.assoc)
    then show ?thesis
      using round_to_multiple_exact[of "e - 52" "n * 2 ^ nat (52 - e)"] by simp
  qed
  have "x < 2 ^ 1024"
  proof -
    have "x \<le> 2 ^ 53"
      using x53 by simp
    also have "\<dots> < (2 :: rat) ^ 1024"
      by (rule power_strict_increasing) simp_all
    finally show ?thesis .
  qed
  with r q show ?thesis
    by (simp add: round_positive_eq x_def[symmetric])
qed

lemma round_double_int:
  assumes "\<bar>n\<bar> \<le> 2 ^ 53"
  shows "round_double (of_int n) = Finite (of_int n)"
proof -
  consider "n = 0" | "0 < n" | "n < 0"
    by linarith
  then show ?thesis
  proof cases
    case 1
    then show ?thesis
      by (simp add: round_double_def)
  next
    case 2
    with assms round_positive_int[of n] show ?thesis
      by (simp add: round_double_def)
  next
    case 3
    with assms round_positive_int[of "- n"] show ?thesis
      by (simp add: round_double_def)
  qed
qed

lemma round_positive_error:
  assumes "2 powi (- 1022) \<le> x" and "x < 2 ^ 1023"
  shows "\<exists>v. round_positive x = Finite v \<and> \<bar>v - x\<bar> \<le> x / 2 ^ 53"
proof -
  define e where "e = binary_exponent x"
  define v where "v = round_to_multiple (quantum x) x"
  have xpos: "0 < x"
    using powi_two_pos[of "- 1022"] assms(1) by linarith
  have e: "- 1022 \<le> e"
    unfolding e_def using assms(1) by (rule binary_exponent_ge)
  then have q: "quantum x = e - 52"
    by (simp add: quantum_def e_def)
  have "(2 :: rat) powi (e - 52) = 2 powi e / 2 ^ 52"
    by (simp add: power_int_diff)
  then have "(2 :: rat) powi (e - 52) / 2 = 2 powi e / 2 ^ 53"
    by simp
  also have "\<dots> \<le> x / 2 ^ 53"
    using binary_exponent_spec[OF xpos] by (simp add: e_def divide_right_mono)
  finally have "2 powi (e - 52) / 2 \<le> x / 2 ^ 53" .
  with round_to_multiple_error[of "e - 52" x] have err: "\<bar>v - x\<bar> \<le> x / 2 ^ 53"
    unfolding v_def q by linarith
  have "x / 2 ^ 53 \<le> x"
    using xpos by (simp add: divide_le_eq)
  with err have "v \<le> 2 * x"
    by linarith
  also have "\<dots> < 2 * 2 ^ 1023"
    using assms(2) by simp
  also have "\<dots> = (2 :: rat) ^ 1024"
    by simp
  finally have "v < 2 ^ 1024" .
  with err show ?thesis
    by (simp add: round_positive_eq v_def)
qed

lemma round_double_error:
  assumes "2 powi (- 1022) \<le> \<bar>x\<bar>" and "\<bar>x\<bar> < 2 ^ 1023"
  shows "\<exists>v. round_double x = Finite v \<and> \<bar>v - x\<bar> \<le> \<bar>x\<bar> / 2 ^ 53"
proof -
  have x0: "x \<noteq> 0"
    using powi_two_pos[of "- 1022"] assms(1) by auto
  show ?thesis
  proof (cases "0 < x")
    case True
    with assms round_positive_error[of x] show ?thesis
      by (simp add: round_double_def)
  next
    case False
    with x0 have neg: "x < 0"
      by simp
    with assms round_positive_error[of "- x"] obtain v
      where v: "round_positive (- x) = Finite v" and e: "\<bar>v - (- x)\<bar> \<le> (- x) / 2 ^ 53"
      by auto
    from e have "\<bar>- v - x\<bar> \<le> \<bar>x\<bar> / 2 ^ 53"
      using neg by (simp add: abs_if split: if_splits)
    with v neg show ?thesis
      by (simp add: round_double_def)
  qed
qed

lemma small_power: "(2 :: rat) powi (- 1022) \<le> 1 / 128"
proof -
  have "(2 :: rat) powi (- 1022) \<le> 2 powi (- 7)"
    by (subst powi_two_le_iff) simp
  also have "\<dots> = 1 / 128"
    by (simp add: power_int_minus_divide)
  finally show ?thesis .
qed

lemma large_power: "(2251799813685248 :: rat) < 2 ^ 1023"
proof -
  have "(2 :: rat) ^ 51 < 2 ^ 1023"
    by (rule power_strict_increasing) simp_all
  moreover have "(2 :: rat) ^ 51 = 2251799813685248"
    by simp
  ultimately show ?thesis
    by (simp only:)
qed

lemma hundredths_round_trip:
  assumes "\<bar>q\<bar> < 2 ^ 50"
  shows "Math_round (js_times (js_divide (Finite (of_int q)) (Finite 100)) (Finite 100)) =
     Finite (of_int q)"
proof (cases "q = 0")
  case True
  have "\<lfloor>1 / 2 :: rat\<rfloor> = 0"
    by (rule floor_unique) simp_all
  with True show ?thesis
    by (simp add: round_double_def)
next
  case False
  define a :: rat where "a = \<bar>of_int q\<bar>"
  define x :: rat where "x = of_int q / 100"
  have a1: "1 \<le> a"
    using False by (simp add: a_def flip: of_int_abs)
  have "a < of_int (2 ^ 50)"
    unfolding a_def using assms by (simp only: of_int_less_iff flip: of_int_abs)
  then have a50: "a < 1125899906842624"
    by simp
  have ax: "\<bar>x\<bar> = a / 100"
    by (simp add: x_def a_def)
  have x1: "2 powi (- 1022) \<le> \<bar>x\<bar>"
    using small_power a1 unfolding ax by linarith
  have x2: "\<bar>x\<bar> < 2 ^ 1023"
    using large_power a50 unfolding ax by linarith
  from round_double_error[OF x1 x2] obtain y
    where y: "round_double x = Finite y" and ey: "\<bar>y - x\<bar> \<le> \<bar>x\<bar> / 2 ^ 53"
    by blast
  define w where "w = y * 100"
  have "w - of_int q = (y - x) * 100"
    by (simp add: w_def x_def algebra_simps)
  then have "\<bar>w - of_int q\<bar> = \<bar>y - x\<bar> * 100"
    by (simp only: abs_mult)
  also have "\<dots> \<le> \<bar>x\<bar> / 2 ^ 53 * 100"
    using ey by (intro mult_right_mono) simp_all
  also have "\<dots> = a / 9007199254740992"
    by (simp add: ax)
  finally have ew: "\<bar>w - of_int q\<bar> \<le> a / 9007199254740992" .
  have aq: "a = \<bar>of_int q :: rat\<bar>"
    by (simp add: a_def)
  have w1: "a / 2 \<le> \<bar>w\<bar>" and w2: "\<bar>w\<bar> \<le> 2 * a"
    using ew a1 aq by linarith+
  have w1': "2 powi (- 1022) \<le> \<bar>w\<bar>"
    using small_power a1 w1 by linarith
  have w2': "\<bar>w\<bar> < 2 ^ 1023"
    using large_power a50 w2 by linarith
  from round_double_error[OF w1' w2'] obtain z
    where z: "round_double w = Finite z" and ez: "\<bar>z - w\<bar> \<le> \<bar>w\<bar> / 2 ^ 53"
    by blast
  have "\<bar>z - of_int q\<bar> \<le> \<bar>z - w\<bar> + \<bar>w - of_int q\<bar>"
    by simp
  also have "\<dots> \<le> 2 * a / 9007199254740992 + a / 9007199254740992"
  proof -
    have "\<bar>w\<bar> / 2 ^ 53 \<le> 2 * a / 9007199254740992"
      using w2 by simp
    with ez ew show ?thesis
      by linarith
  qed
  also have "\<dots> < 1 / 2"
    using a50 by linarith
  finally have "\<bar>z - of_int q\<bar> < 1 / 2" .
  then have "\<lfloor>z + 1 / 2\<rfloor> = q"
    by (intro floor_unique) (simp_all add: abs_if split: if_splits)
  with y z show ?thesis
    by (simp add: x_def w_def)
qed

lemma js_le_PosInfinity: "x \<noteq> NaN \<Longrightarrow> js_le x PosInfinity"
  by (cases x) simp_all

lemma js_le_NegInfinity: "x \<noteq> NaN \<Longrightarrow> js_le NegInfinity x"
  by (cases x) simp_all

lemma js_divide_mono:
  assumes "0 < c" and "js_le x y"
  shows "js_le (js_divide x (Finite c)) (js_divide y (Finite c))"
proof (cases x; cases y)
  fix a b
  assume "x = Finite a" "y = Finite b"
  with assms show ?thesis
    by (simp add: round_double_mono divide_right_mono)
qed (use assms in \<open>simp_all add: js_le_PosInfinity js_le_NegInfinity round_double_not_NaN\<close>)

lemma js_times_mono:
  assumes "0 < c" and "js_le x y"
  shows "js_le (js_times x (Finite c)) (js_times y (Finite c))"
proof (cases x; cases y)
  fix a b
  assume "x = Finite a" "y = Finite b"
  with assms show ?thesis
    by (simp add: round_double_mono mult_right_mono)
qed (use assms in \<open>simp_all add: js_le_PosInfinity js_le_NegInfinity round_double_not_NaN\<close>)

lemma Math_round_mono:
  assumes "js_le x y"
  shows "js_le (Math_round x) (Math_round y)"
  using assms by (cases x; cases y) (simp_all add: floor_mono)

lemma Number_bigint_mono: "i \<le> j \<Longrightarrow> js_le (Number_bigint i) (Number_bigint j)"
  unfolding Number_bigint_def by (rule round_double_mono) simp

section \<open>Properties of the classifier\<close>

lemma find_None_list_ex: "(find P xs = None) = (\<not> list_ex P xs)"
  by (induction xs) simp_all

lemma find_Some_holds: "find P xs = Some x \<Longrightarrow> P x \<and> x \<in> set xs"
  by (induction xs) (auto split: if_splits)

lemma find_exists: "x \<in> set xs \<Longrightarrow> P x \<Longrightarrow> \<exists>y. find P xs = Some y"
  by (cases "find P xs") (auto simp: find_None_iff)

lemma find_first:
  assumes "i < length xs" and "P (xs ! i)" and "\<forall>j<i. \<not> P (xs ! j)"
  shows "find P xs = Some (xs ! i)"
  using assms by (auto simp: find_Some_iff)

lemma find_index:
  assumes "find P xs = Some x"
  shows "\<exists>i<length xs. x = xs ! i \<and> P (xs ! i) \<and> (\<forall>j<i. \<not> P (xs ! j))"
  using assms by (auto simp: find_Some_iff)

lemma burnInstructionLoop_eq:
  "burnInstructionLoop tts trackedMint ixs =
     (if list_ex isBurnInstruction ixs
      then map_option (\<lambda>t. safeBigInt (tokenAmount t)) (find (isBurnTransfer trackedMint) tts)
      else None)"
  by (induction ixs) (auto split: option.splits)

lemma findBurn_instruction:
  assumes "burnInstructionEvidence tx trackedMint"
  shows "\<exists>t. find (isBurnTransfer trackedMint) (tokenTransfers tx) = Some t \<and>
             findBurnInTransaction tx trackedMint = Some (safeBigInt (tokenAmount t))"
proof -
  from assms have ix: "list_ex isBurnInstruction (instructions tx)"
    and tt: "list_ex (isBurnTransfer trackedMint) (tokenTransfers tx)"
    by (simp_all add: burnInstructionEvidence_def)
  from tt obtain t where t: "find (isBurnTransfer trackedMint) (tokenTransfers tx) = Some t"
    by (cases "find (isBurnTransfer trackedMint) (tokenTransfers tx)")
       (auto simp: find_None_list_ex)
  with ix show ?thesis
    by (simp add: findBurnInTransaction_def burnInstructionLoop_eq)
qed

lemma burnInstructionLoop_None:
  assumes "\<not> burnInstructionEvidence tx trackedMint"
  shows "burnInstructionLoop (tokenTransfers tx) trackedMint (instructions tx) = None"
  using assms
  by (auto simp: burnInstructionEvidence_def burnInstructionLoop_eq find_None_list_ex)

lemma findBurn_address:
  assumes "\<not> burnInstructionEvidence tx trackedMint" and "burnAddressEvidence tx trackedMint"
  shows "\<exists>t. find (isToBurnAddress trackedMint) (tokenTransfers tx) = Some t \<and>
             findBurnInTransaction tx trackedMint = Some (safeBigInt (tokenAmount t))"
proof -
  from assms(2) obtain t
    where t: "find (isToBurnAddress trackedMint) (tokenTransfers tx) = Some t"
    by (cases "find (isToBurnAddress trackedMint) (tokenTransfers tx)")
       (auto simp: find_None_list_ex burnAddressEvidence_def)
  then show ?thesis
    by (simp add: findBurnInTransaction_def burnInstructionLoop_None[OF assms(1)])
qed

lemma findBurn_annotation:
  assumes "\<not> burnInstructionEvidence tx trackedMint" and "\<not> burnAddressEvidence tx trackedMint"
  shows "findBurnInTransaction tx trackedMint =
           map_option (\<lambda>b. safeBigInt (burn_amount b)) (burnAnnotation tx)"
proof -
  from assms(2) have "find (isToBurnAddress trackedMint) (tokenTransfers tx) = None"
    by (simp add: find_None_list_ex burnAddressEvidence_def)
  then show ?thesis
    by (simp add: findBurnInTransaction_def burnInstructionLoop_None[OF assms(1)]
        burnAnnotation_def split: option.splits)
qed

lemma classify_no_collect:
  assumes "\<not> truthy (transactionError tx)"
    and "find (isCollectTransfer v w) (nativeTransfers tx) = None"
    and "find (isVaultOutflow v) (nativeTransfers tx) = Some out"
  shows "classifyTransaction (Some tx) v w m =
     (if hasSwapInstruction tx \<and> findBurnInTransaction tx m \<noteq> None then
        Some \<lparr> ce_type = Burn, amountLamports = safeBigInt (amount out),
               ce_signature = signature tx,
               blockTime = new_Date (js_times (case timestamp tx of None \<Rightarrow> Finite 0
                                               | Some ts \<Rightarrow> ts) (Finite 1000)),
               burnedTokenMint = Some m,
               burnedTokenAmount = findBurnInTransaction tx m \<rparr>
      else if toUserAccount out = w then
        Some \<lparr> ce_type = Withdraw, amountLamports = safeBigInt (amount out),
               ce_signature = signature tx,
               blockTime = new_Date (js_times (case timestamp tx of None \<Rightarrow> Finite 0
                                               | Some ts \<Rightarrow> ts) (Finite 1000)),
               burnedTokenMint = None, burnedTokenAmount = None \<rparr>
      else
        (case (if hasSwapInstruction tx then find (isTokenBurn m) (tokenTransfers tx)
               else None) of
           Some tokenBurn \<Rightarrow>
             Some \<lparr> ce_type = Burn, amountLamports = safeBigInt (amount out),
                    ce_signature = signature tx,
                    blockTime = new_Date (js_times (case timestamp tx of None \<Rightarrow> Finite 0
                                                    | Some ts \<Rightarrow> ts) (Finite 1000)),
                    burnedTokenMint = Some m,
                    burnedTokenAmount = Some (safeBigInt (tokenAmount tokenBurn)) \<rparr>
         | None \<Rightarrow>
             Some \<lparr> ce_type = Withdraw, amountLamports = safeBigInt (amount out),
                    ce_signature = signature tx,
                    blockTime = new_Date (js_times (case timestamp tx of None \<Rightarrow> Finite 0
                                                    | Some ts \<Rightarrow> ts) (Finite 1000)),
                    burnedTokenMint = None, burnedTokenAmount = None \<rparr>))"
  using assms by (simp add: classifyTransaction_def Let_def)

lemma classify_collect_found:
  assumes "\<not> truthy (transactionError tx)"
    and "find (isCollectTransfer v w) (nativeTransfers tx) = Some c"
  shows "classifyTransaction (Some tx) v w m =
      Some \<lparr> ce_type = Collect, amountLamports = safeBigInt (amount c),
             ce_signature = signature tx,
             blockTime = new_Date (js_times (case timestamp tx of None \<Rightarrow> Finite 0
                                             | Some ts \<Rightarrow> ts) (Finite 1000)),
             burnedTokenMint = None, burnedTokenAmount = None \<rparr>"
  using assms by (simp add: classifyTransaction_def Let_def)

lemma classify_nothing:
  assumes "find (isCollectTransfer v w) (nativeTransfers tx) = None"
    and "find (isVaultOutflow v) (nativeTransfers tx) = None"
  shows "classifyTransaction (Some tx) v w m = None"
  using assms by (simp add: classifyTransaction_def Let_def)

lemma no_collect_transfer:
  assumes "\<forall>u \<in> set nts. \<not> (toUserAccount u = v \<and> fromUserAccount u \<noteq> w)"
  shows "find (isCollectTransfer v w) nts = None"
  using assms by (simp add: find_None_iff isCollectTransfer_def)

lemma first_outflow:
  assumes "i < length nts" and "fromUserAccount (nts ! i) = v"
    and "\<forall>j<i. fromUserAccount (nts ! j) \<noteq> v"
  shows "find (isVaultOutflow v) nts = Some (nts ! i)"
  using assms by (intro find_first) (simp_all add: isVaultOutflow_def)

lemma exampleTx_blockTime:
  "new_Date (js_times (Finite 1700000000) (Finite 1000)) = DateValue 1700000000000"
  "new_Date (round_double 1700000000000) = DateValue 1700000000000"
proof -
  have "round_double 1700000000000 = Finite 1700000000000"
    using round_double_int[of 1700000000000] by simp
  then show "new_Date (js_times (Finite 1700000000) (Finite 1000)) = DateValue 1700000000000"
    and "new_Date (round_double 1700000000000) = DateValue 1700000000000"
    by (simp_all add: truncate_toward_zero_def)
qed

text \<open>
  Claim C2, as the code has it. In a transaction without error marker that contains a
  native transfer into the vault from an account other than the creator wallet, the
  classifier returns a collect event: its type is collect, it has no burn fields, it
  carries the signature and the block time of the transaction, and its amount is the
  coerced amount (\<open>safeBigInt\<close>) of the first such transfer of the list, which is the
  amount itself when that is an integer number or a bigint. No condition on outflows is
  needed, so the rule has priority over the outflow rules. When the vault and the creator
  wallet are different addresses and every native transfer that touches the vault goes
  from the creator wallet into the vault, the classifier returns no event.
\<close>

theorem classify_collect_rule:
  "(\<not> truthy (transactionError tx) \<and> t \<in> set (nativeTransfers tx) \<and>
    toUserAccount t = v \<and> fromUserAccount t \<noteq> w
    \<longrightarrow> (\<exists>i<length (nativeTransfers tx).
           toUserAccount (nativeTransfers tx ! i) = v \<and>
           fromUserAccount (nativeTransfers tx ! i) \<noteq> w \<and>
           (\<forall>j<i. \<not> (toUserAccount (nativeTransfers tx ! j) = v \<and>
                       fromUserAccount (nativeTransfers tx ! j) \<noteq> w)) \<and>
           classifyTransaction (Some tx) v w m =
             Some \<lparr> ce_type = Collect,
                    amountLamports = safeBigInt (amount (nativeTransfers tx ! i)),
                    ce_signature = signature tx,
                    blockTime = new_Date (js_times (case timestamp tx of None \<Rightarrow> Finite 0
                                                    | Some ts \<Rightarrow> ts) (Finite 1000)),
                    burnedTokenMint = None, burnedTokenAmount = None \<rparr> \<and>
           (\<forall>n. amount (nativeTransfers tx ! i) = JSNumber (Finite (of_int n)) \<or>
                amount (nativeTransfers tx ! i) = JSBigInt n
                \<longrightarrow> safeBigInt (amount (nativeTransfers tx ! i)) = n))) \<and>
   (v \<noteq> w \<and>
    (\<forall>u \<in> set (nativeTransfers tx).
        (toUserAccount u = v \<or> fromUserAccount u = v) \<longrightarrow>
        (fromUserAccount u = w \<and> toUserAccount u = v))
    \<longrightarrow> classifyTransaction (Some tx) v w m = None)"
proof (intro conjI impI)
  assume a: "\<not> truthy (transactionError tx) \<and> t \<in> set (nativeTransfers tx) \<and>
    toUserAccount t = v \<and> fromUserAccount t \<noteq> w"
  then have "isCollectTransfer v w t" and tin: "t \<in> set (nativeTransfers tx)"
    and ne: "\<not> truthy (transactionError tx)"
    by (simp_all add: isCollectTransfer_def)
  then obtain c where c: "find (isCollectTransfer v w) (nativeTransfers tx) = Some c"
    using find_exists[of t "nativeTransfers tx" "isCollectTransfer v w"] by auto
  from find_index[OF c] obtain i where i: "i < length (nativeTransfers tx)"
    and ci: "c = nativeTransfers tx ! i"
    and p: "isCollectTransfer v w (nativeTransfers tx ! i)"
    and f: "\<forall>j<i. \<not> isCollectTransfer v w (nativeTransfers tx ! j)"
    by blast
  have int: "\<forall>n. amount (nativeTransfers tx ! i) = JSNumber (Finite (of_int n)) \<or>
                amount (nativeTransfers tx ! i) = JSBigInt n
                \<longrightarrow> safeBigInt (amount (nativeTransfers tx ! i)) = n"
    by auto
  from p f classify_collect_found[OF ne c, of m] int
  have "toUserAccount (nativeTransfers tx ! i) = v \<and>
           fromUserAccount (nativeTransfers tx ! i) \<noteq> w \<and>
           (\<forall>j<i. \<not> (toUserAccount (nativeTransfers tx ! j) = v \<and>
                       fromUserAccount (nativeTransfers tx ! j) \<noteq> w)) \<and>
           classifyTransaction (Some tx) v w m =
             Some \<lparr> ce_type = Collect,
                    amountLamports = safeBigInt (amount (nativeTransfers tx ! i)),
                    ce_signature = signature tx,
                    blockTime = new_Date (js_times (case timestamp tx of None \<Rightarrow> Finite 0
                                                    | Some ts \<Rightarrow> ts) (Finite 1000)),
                    burnedTokenMint = None, burnedTokenAmount = None \<rparr> \<and>
           (\<forall>n. amount (nativeTransfers tx ! i) = JSNumber (Finite (of_int n)) \<or>
                amount (nativeTransfers tx ! i) = JSBigInt n
                \<longrightarrow> safeBigInt (amount (nativeTransfers tx ! i)) = n)"
    unfolding ci isCollectTransfer_def by (intro conjI) simp_all
  with i show "\<exists>i<length (nativeTransfers tx).
           toUserAccount (nativeTransfers tx ! i) = v \<and>
           fromUserAccount (nativeTransfers tx ! i) \<noteq> w \<and>
           (\<forall>j<i. \<not> (toUserAccount (nativeTransfers tx ! j) = v \<and>
                       fromUserAccount (nativeTransfers tx ! j) \<noteq> w)) \<and>
           classifyTransaction (Some tx) v w m =
             Some \<lparr> ce_type = Collect,
                    amountLamports = safeBigInt (amount (nativeTransfers tx ! i)),
                    ce_signature = signature tx,
                    blockTime = new_Date (js_times (case timestamp tx of None \<Rightarrow> Finite 0
                                                    | Some ts \<Rightarrow> ts) (Finite 1000)),
                    burnedTokenMint = None, burnedTokenAmount = None \<rparr> \<and>
           (\<forall>n. amount (nativeTransfers tx ! i) = JSNumber (Finite (of_int n)) \<or>
                amount (nativeTransfers tx ! i) = JSBigInt n
                \<longrightarrow> safeBigInt (amount (nativeTransfers tx ! i)) = n)"
    by blast
next
  assume a: "v \<noteq> w \<and>
    (\<forall>u \<in> set (nativeTransfers tx).
        (toUserAccount u = v \<or> fromUserAccount u = v) \<longrightarrow>
        (fromUserAccount u = w \<and> toUserAccount u = v))"
  then have "\<forall>u \<in> set (nativeTransfers tx). \<not> isCollectTransfer v w u"
    by (auto simp: isCollectTransfer_def)
  then have 1: "find (isCollectTransfer v w) (nativeTransfers tx) = None"
    by (simp add: find_None_iff)
  from a have "\<forall>u \<in> set (nativeTransfers tx). \<not> isVaultOutflow v u"
    by (auto simp: isVaultOutflow_def)
  then have 2: "find (isVaultOutflow v) (nativeTransfers tx) = None"
    by (simp add: find_None_iff)
  from 1 2 show "classifyTransaction (Some tx) v w m = None"
    by (rule classify_nothing)
qed

theorem classify_collect_rule_witness:
  "classifyTransaction
     (Some (exampleTx [transfer ''buyer'' ''vault'' (lamports 1000000000),
                       transfer ''vault'' ''somewhere'' (lamports 500000000)]))
     ''vault'' ''wallet'' ''mint''
   = Some \<lparr> ce_type = Collect, amountLamports = 1000000000, ce_signature = ''sig'',
            blockTime = DateValue 1700000000000,
            burnedTokenMint = None, burnedTokenAmount = None \<rparr> \<and>
   classifyTransaction
     (Some (exampleTx [transfer ''wallet'' ''vault'' (lamports 1000000000)]))
     ''vault'' ''wallet'' ''mint'' = None"
proof -
  define t where "t = transfer ''buyer'' ''vault'' (lamports 1000000000)"
  define tx where "tx = exampleTx [t, transfer ''vault'' ''somewhere'' (lamports 500000000)]"
  define tx' where "tx' = exampleTx [transfer ''wallet'' ''vault'' (lamports 1000000000)]"
  have h1: "\<not> truthy (transactionError tx) \<and> t \<in> set (nativeTransfers tx) \<and>
      toUserAccount t = ''vault'' \<and> fromUserAccount t \<noteq> ''wallet''"
    by (simp add: tx_def t_def exampleTx_def transfer_def)
  have h2: "''vault'' \<noteq> ''wallet'' \<and>
    (\<forall>u \<in> set (nativeTransfers tx').
        (toUserAccount u = ''vault'' \<or> fromUserAccount u = ''vault'') \<longrightarrow>
        (fromUserAccount u = ''wallet'' \<and> toUserAccount u = ''vault''))"
    by (simp add: tx'_def exampleTx_def transfer_def)
  have n0: "nativeTransfers tx ! 0 = t"
    by (simp add: tx_def exampleTx_def)
  have q0: "toUserAccount t = ''vault'' \<and> fromUserAccount t \<noteq> ''wallet''"
    by (simp add: t_def transfer_def)
  have amt: "safeBigInt (amount t) = 1000000000"
    by (simp add: t_def transfer_def lamports_def)
  have sg: "signature tx = ''sig''" and ts: "timestamp tx = Some (Finite 1700000000)"
    by (simp_all add: tx_def exampleTx_def)
  note c1 = classify_collect_rule[of tx t "''vault''" "''wallet''" "''mint''",
      THEN conjunct1, THEN mp, OF h1]
  then obtain i where
    f: "\<forall>j<i. \<not> (toUserAccount (nativeTransfers tx ! j) = ''vault'' \<and>
                 fromUserAccount (nativeTransfers tx ! j) \<noteq> ''wallet'')"
    and r: "classifyTransaction (Some tx) ''vault'' ''wallet'' ''mint'' =
             Some \<lparr> ce_type = Collect,
                    amountLamports = safeBigInt (amount (nativeTransfers tx ! i)),
                    ce_signature = signature tx,
                    blockTime = new_Date (js_times (case timestamp tx of None \<Rightarrow> Finite 0
                                                    | Some ts \<Rightarrow> ts) (Finite 1000)),
                    burnedTokenMint = None, burnedTokenAmount = None \<rparr>"
    by blast
  have "i = 0"
  proof (rule ccontr)
    assume "i \<noteq> 0"
    then have "0 < i"
      by simp
    with f n0 q0 show False
      by auto
  qed
  with r n0 amt have r1: "classifyTransaction (Some tx) ''vault'' ''wallet'' ''mint'' =
      Some \<lparr> ce_type = Collect, amountLamports = 1000000000, ce_signature = ''sig'',
             blockTime = DateValue 1700000000000,
             burnedTokenMint = None, burnedTokenAmount = None \<rparr>"
    by (simp add: sg ts exampleTx_blockTime)
  note r2 = classify_collect_rule[of tx' t "''vault''" "''wallet''" "''mint''",
      THEN conjunct2, THEN mp, OF h2]
  from r1 r2 show ?thesis
    unfolding tx_def tx'_def t_def by simp
qed

text \<open>
  The claim as worded fails in three ways. A transfer into the vault whose amount is the
  number \<open>2.5\<close> gives a collect event of 2 lamports, not of the transfer's magnitude. With
  two transfers into the vault, of 5 and of 7 lamports, the event carries 5: the second
  transfer also meets the condition of the claim, and its magnitude is not the amount of
  the event. When the vault and the creator wallet are the same address, a transfer from
  the creator wallet into the vault is the only relevant native transfer and the
  classifier returns a withdraw event.
\<close>

theorem classify_collect_counterexample:
  "classifyTransaction
     (Some (exampleTx [transfer ''buyer'' ''vault'' (JSNumber (Finite (5 / 2)))]))
     ''vault'' ''wallet'' ''mint''
   = Some \<lparr> ce_type = Collect, amountLamports = 2, ce_signature = ''sig'',
            blockTime = DateValue 1700000000000,
            burnedTokenMint = None, burnedTokenAmount = None \<rparr> \<and>
   (of_int 2 :: rat) \<noteq> 5 / 2 \<and>
   classifyTransaction
     (Some (exampleTx [transfer ''buyer'' ''vault'' (lamports 5),
                       transfer ''other'' ''vault'' (lamports 7)]))
     ''vault'' ''wallet'' ''mint''
   = Some \<lparr> ce_type = Collect, amountLamports = 5, ce_signature = ''sig'',
            blockTime = DateValue 1700000000000,
            burnedTokenMint = None, burnedTokenAmount = None \<rparr> \<and>
   classifyTransaction
     (Some (exampleTx [transfer ''wallet'' ''wallet'' (lamports 5)]))
     ''wallet'' ''wallet'' ''mint''
   = Some \<lparr> ce_type = Withdraw, amountLamports = 5, ce_signature = ''sig'',
            blockTime = DateValue 1700000000000,
            burnedTokenMint = None, burnedTokenAmount = None \<rparr>"
proof -
  have fl: "\<lfloor>5 / 2 :: rat\<rfloor> = 2"
    by (rule floor_unique) simp_all
  have 1: "classifyTransaction
     (Some (exampleTx [transfer ''buyer'' ''vault'' (JSNumber (Finite (5 / 2)))]))
     ''vault'' ''wallet'' ''mint''
   = Some \<lparr> ce_type = Collect, amountLamports = 2, ce_signature = ''sig'',
            blockTime = DateValue 1700000000000,
            burnedTokenMint = None, burnedTokenAmount = None \<rparr>"
    using fl by (simp add: classifyTransaction_def exampleTx_def transfer_def
        isCollectTransfer_def exampleTx_blockTime)
  have 2: "(of_int 2 :: rat) \<noteq> 5 / 2"
    by simp
  have 3: "classifyTransaction
     (Some (exampleTx [transfer ''buyer'' ''vault'' (lamports 5),
                       transfer ''other'' ''vault'' (lamports 7)]))
     ''vault'' ''wallet'' ''mint''
   = Some \<lparr> ce_type = Collect, amountLamports = 5, ce_signature = ''sig'',
            blockTime = DateValue 1700000000000,
            burnedTokenMint = None, burnedTokenAmount = None \<rparr>"
    by (simp add: classifyTransaction_def exampleTx_def transfer_def lamports_def
        isCollectTransfer_def exampleTx_blockTime)
  have 4: "classifyTransaction
     (Some (exampleTx [transfer ''wallet'' ''wallet'' (lamports 5)]))
     ''wallet'' ''wallet'' ''mint''
   = Some \<lparr> ce_type = Withdraw, amountLamports = 5, ce_signature = ''sig'',
            blockTime = DateValue 1700000000000,
            burnedTokenMint = None, burnedTokenAmount = None \<rparr>"
    by (simp add: classifyTransaction_def exampleTx_def transfer_def lamports_def
        isCollectTransfer_def isVaultOutflow_def hasSwapInstruction_def
        exampleTx_blockTime)
  from 1 2 3 4 show ?thesis
    by (intro conjI)
qed

text \<open>
  Claim C3, as the code has it. In a transaction without error marker and without a
  transfer that the collect rule selects, let the first native transfer out of the vault
  be the one at index \<open>i\<close>. A detected swap pattern together with burn evidence of any of
  the three kinds gives a burn event: its type is burn, it carries the signature and the
  block time of the transaction, its amount is the coerced amount (\<open>safeBigInt\<close>) of that
  first outflow, which is the amount itself when that is an integer number or a bigint,
  its burned mint is the tracked mint, and its burned token amount is the coerced amount
  of the first kind of evidence that matched, in the order instruction, burn address,
  annotation.
\<close>

theorem classify_burn_rule:
  assumes "\<not> truthy (transactionError tx)"
    and "\<forall>u \<in> set (nativeTransfers tx). \<not> (toUserAccount u = v \<and> fromUserAccount u \<noteq> w)"
    and "i < length (nativeTransfers tx)"
    and "fromUserAccount (nativeTransfers tx ! i) = v"
    and "\<forall>j<i. fromUserAccount (nativeTransfers tx ! j) \<noteq> v"
    and "hasSwapInstruction tx"
    and "burnInstructionEvidence tx m \<or> burnAddressEvidence tx m \<or> burnAnnotation tx \<noteq> None"
  shows "\<exists>a. classifyTransaction (Some tx) v w m =
             Some \<lparr> ce_type = Burn,
                    amountLamports = safeBigInt (amount (nativeTransfers tx ! i)),
                    ce_signature = signature tx,
                    blockTime = new_Date (js_times (case timestamp tx of None \<Rightarrow> Finite 0
                                                    | Some ts \<Rightarrow> ts) (Finite 1000)),
                    burnedTokenMint = Some m, burnedTokenAmount = Some a \<rparr> \<and>
           (\<forall>n. amount (nativeTransfers tx ! i) = JSNumber (Finite (of_int n)) \<or>
                amount (nativeTransfers tx ! i) = JSBigInt n
                \<longrightarrow> safeBigInt (amount (nativeTransfers tx ! i)) = n) \<and>
           (burnInstructionEvidence tx m \<longrightarrow>
              (\<exists>t. find (isBurnTransfer m) (tokenTransfers tx) = Some t \<and>
                   a = safeBigInt (tokenAmount t))) \<and>
           (\<not> burnInstructionEvidence tx m \<and> burnAddressEvidence tx m \<longrightarrow>
              (\<exists>t. find (isToBurnAddress m) (tokenTransfers tx) = Some t \<and>
                   a = safeBigInt (tokenAmount t))) \<and>
           (\<not> burnInstructionEvidence tx m \<and> \<not> burnAddressEvidence tx m \<longrightarrow>
              (\<exists>b. burnAnnotation tx = Some b \<and> a = safeBigInt (burn_amount b)))"
proof -
  note nc = no_collect_transfer[OF assms(2)]
  note out = first_outflow[OF assms(3,4,5)]
  have int: "\<forall>n. amount (nativeTransfers tx ! i) = JSNumber (Finite (of_int n)) \<or>
                amount (nativeTransfers tx ! i) = JSBigInt n
                \<longrightarrow> safeBigInt (amount (nativeTransfers tx ! i)) = n"
    by auto
  have cls: "\<And>a. findBurnInTransaction tx m = Some a \<Longrightarrow>
      classifyTransaction (Some tx) v w m =
        Some \<lparr> ce_type = Burn,
               amountLamports = safeBigInt (amount (nativeTransfers tx ! i)),
               ce_signature = signature tx,
               blockTime = new_Date (js_times (case timestamp tx of None \<Rightarrow> Finite 0
                                               | Some ts \<Rightarrow> ts) (Finite 1000)),
               burnedTokenMint = Some m, burnedTokenAmount = Some a \<rparr>"
    using assms(6) by (simp add: classify_no_collect[OF assms(1) nc out])
  show ?thesis
  proof (cases "burnInstructionEvidence tx m")
    case True
    from findBurn_instruction[OF True] obtain t
      where t: "find (isBurnTransfer m) (tokenTransfers tx) = Some t"
        and f: "findBurnInTransaction tx m = Some (safeBigInt (tokenAmount t))"
      by blast
    from cls[OF f] t True int show ?thesis
      by (intro exI[of _ "safeBigInt (tokenAmount t)"] conjI) simp_all
  next
    case noInstr: False
    show ?thesis
    proof (cases "burnAddressEvidence tx m")
      case True
      from findBurn_address[OF noInstr True] obtain t
        where t: "find (isToBurnAddress m) (tokenTransfers tx) = Some t"
          and f: "findBurnInTransaction tx m = Some (safeBigInt (tokenAmount t))"
        by blast
      from cls[OF f] t True noInstr int show ?thesis
        by (intro exI[of _ "safeBigInt (tokenAmount t)"] conjI) simp_all
    next
      case noAddr: False
      with noInstr assms(7) obtain b where b: "burnAnnotation tx = Some b"
        by auto
      with findBurn_annotation[OF noInstr noAddr]
      have f: "findBurnInTransaction tx m = Some (safeBigInt (burn_amount b))"
        by simp
      from cls[OF f] b noInstr noAddr int show ?thesis
        by (intro exI[of _ "safeBigInt (burn_amount b)"] conjI) simp_all
    qed
  qed
qed

theorem classify_burn_rule_witness:
  "classifyTransaction (Some exampleSwapBurnTx) ''vault'' ''wallet'' ''mint'' =
     Some \<lparr> ce_type = Burn, amountLamports = 2000000000, ce_signature = ''sig'',
            blockTime = DateValue 1700000000000,
            burnedTokenMint = Some ''mint'', burnedTokenAmount = Some 50000 \<rparr>"
proof -
  define out where "out = transfer ''vault'' ''jupiter-pool'' (lamports 2000000000)"
  have nts: "nativeTransfers exampleSwapBurnTx = [out]"
    by (simp add: exampleSwapBurnTx_def exampleTx_def out_def)
  have h1: "\<not> truthy (transactionError exampleSwapBurnTx)"
    by (simp add: exampleSwapBurnTx_def exampleTx_def)
  have h2: "\<forall>u \<in> set (nativeTransfers exampleSwapBurnTx).
      \<not> (toUserAccount u = ''vault'' \<and> fromUserAccount u \<noteq> ''wallet'')"
    by (simp add: nts out_def transfer_def)
  have h3: "0 < length (nativeTransfers exampleSwapBurnTx)"
    by (simp add: nts)
  have h4: "fromUserAccount (nativeTransfers exampleSwapBurnTx ! 0) = ''vault''"
    by (simp add: nts out_def transfer_def)
  have h5: "\<forall>j<0. fromUserAccount (nativeTransfers exampleSwapBurnTx ! j) \<noteq> ''vault''"
    by simp
  have h6: "hasSwapInstruction exampleSwapBurnTx"
    by (simp add: hasSwapInstruction_def exampleSwapBurnTx_def exampleTx_def)
  have ann: "burnAnnotation exampleSwapBurnTx = Some \<lparr> burn_amount = JSNumber (Finite 50000) \<rparr>"
    by (simp add: burnAnnotation_def exampleSwapBurnTx_def exampleTx_def)
  then have h7: "burnInstructionEvidence exampleSwapBurnTx ''mint'' \<or>
      burnAddressEvidence exampleSwapBurnTx ''mint'' \<or> burnAnnotation exampleSwapBurnTx \<noteq> None"
    by simp
  have n1: "\<not> burnInstructionEvidence exampleSwapBurnTx ''mint''"
    by (simp add: burnInstructionEvidence_def exampleSwapBurnTx_def exampleTx_def)
  have n2: "\<not> burnAddressEvidence exampleSwapBurnTx ''mint''"
    by (simp add: burnAddressEvidence_def exampleSwapBurnTx_def exampleTx_def)
  have sg: "signature exampleSwapBurnTx = ''sig''"
    and ts: "timestamp exampleSwapBurnTx = Some (Finite 1700000000)"
    by (simp_all add: exampleSwapBurnTx_def exampleTx_def)
  from classify_burn_rule[OF h1 h2 h3 h4 h5 h6 h7] obtain a
    where r: "classifyTransaction (Some exampleSwapBurnTx) ''vault'' ''wallet'' ''mint'' =
             Some \<lparr> ce_type = Burn,
                    amountLamports = safeBigInt (amount (nativeTransfers exampleSwapBurnTx ! 0)),
                    ce_signature = signature exampleSwapBurnTx,
                    blockTime = new_Date (js_times (case timestamp exampleSwapBurnTx of
                                                      None \<Rightarrow> Finite 0
                                                    | Some ts \<Rightarrow> ts) (Finite 1000)),
                    burnedTokenMint = Some ''mint'', burnedTokenAmount = Some a \<rparr>"
      and e: "\<not> burnInstructionEvidence exampleSwapBurnTx ''mint'' \<and>
              \<not> burnAddressEvidence exampleSwapBurnTx ''mint'' \<longrightarrow>
              (\<exists>b. burnAnnotation exampleSwapBurnTx = Some b \<and> a = safeBigInt (burn_amount b))"
    by blast
  from e n1 n2 ann have "a = 50000"
    by simp
  moreover have "safeBigInt (amount (nativeTransfers exampleSwapBurnTx ! 0)) = 2000000000"
    by (simp add: nts out_def transfer_def lamports_def)
  ultimately show ?thesis
    using r by (simp add: sg ts exampleTx_blockTime)
qed

text \<open>
  The claim as worded fails for an outflow whose amount is the number \<open>2.5\<close>: with a swap
  pattern and a burn annotation the burn event carries 2 lamports, not the outflow's
  magnitude. With two outflows, of 5 and of 7 lamports, the event carries 5: the second
  outflow is a native transfer out of the vault as well, and its magnitude is not the
  amount of the event.
\<close>

theorem classify_burn_counterexample:
  "classifyTransaction
     (Some (exampleSwapBurnTx
              \<lparr> nativeTransfers :=
                  [transfer ''vault'' ''jupiter-pool'' (JSNumber (Finite (5 / 2)))] \<rparr>))
     ''vault'' ''wallet'' ''mint''
   = Some \<lparr> ce_type = Burn, amountLamports = 2, ce_signature = ''sig'',
            blockTime = DateValue 1700000000000,
            burnedTokenMint = Some ''mint'', burnedTokenAmount = Some 50000 \<rparr> \<and>
   (of_int 2 :: rat) \<noteq> 5 / 2 \<and>
   classifyTransaction
     (Some (exampleSwapBurnTx
              \<lparr> nativeTransfers :=
                  [transfer ''vault'' ''jupiter-pool'' (lamports 5),
                   transfer ''vault'' ''jupiter-pool'' (lamports 7)] \<rparr>))
     ''vault'' ''wallet'' ''mint''
   = Some \<lparr> ce_type = Burn, amountLamports = 5, ce_signature = ''sig'',
            blockTime = DateValue 1700000000000,
            burnedTokenMint = Some ''mint'', burnedTokenAmount = Some 50000 \<rparr>"
proof -
  have fl: "\<lfloor>5 / 2 :: rat\<rfloor> = 2"
    by (rule floor_unique) simp_all
  have sw: "hasSwapInstruction (exampleSwapBurnTx \<lparr> nativeTransfers := nts \<rparr>)" for nts
    by (simp add: hasSwapInstruction_def exampleSwapBurnTx_def exampleTx_def)
  have fb: "findBurnInTransaction (exampleSwapBurnTx \<lparr> nativeTransfers := nts \<rparr>) ''mint'' =
      Some 50000" for nts
    by (simp add: findBurnInTransaction_def exampleSwapBurnTx_def exampleTx_def)
  have 1: "classifyTransaction
     (Some (exampleSwapBurnTx
              \<lparr> nativeTransfers :=
                  [transfer ''vault'' ''jupiter-pool'' (JSNumber (Finite (5 / 2)))] \<rparr>))
     ''vault'' ''wallet'' ''mint''
   = Some \<lparr> ce_type = Burn, amountLamports = 2, ce_signature = ''sig'',
            blockTime = DateValue 1700000000000,
            burnedTokenMint = Some ''mint'', burnedTokenAmount = Some 50000 \<rparr>"
    using fl by (simp add: classifyTransaction_def sw fb transfer_def
        isCollectTransfer_def isVaultOutflow_def)
       (simp add: exampleSwapBurnTx_def exampleTx_def exampleTx_blockTime)
  have 2: "(of_int 2 :: rat) \<noteq> 5 / 2"
    by simp
  have 3: "classifyTransaction
     (Some (exampleSwapBurnTx
              \<lparr> nativeTransfers :=
                  [transfer ''vault'' ''jupiter-pool'' (lamports 5),
                   transfer ''vault'' ''jupiter-pool'' (lamports 7)] \<rparr>))
     ''vault'' ''wallet'' ''mint''
   = Some \<lparr> ce_type = Burn, amountLamports = 5, ce_signature = ''sig'',
            blockTime = DateValue 1700000000000,
            burnedTokenMint = Some ''mint'', burnedTokenAmount = Some 50000 \<rparr>"
    by (simp add: classifyTransaction_def sw fb transfer_def lamports_def
        isCollectTransfer_def isVaultOutflow_def)
       (simp add: exampleSwapBurnTx_def exampleTx_def exampleTx_blockTime)
  from 1 2 3 show ?thesis
    by (intro conjI)
qed

text \<open>
  Claim C4, as the code has it. In a transaction without error marker and without a
  transfer that the collect rule selects, let the first native transfer out of the vault
  be the one at index \<open>i\<close>. The absence of a swap pattern gives a withdraw event: its
  type is withdraw, it has no burn fields, it carries the signature and the block time of
  the transaction, and its amount is the coerced amount (\<open>safeBigInt\<close>) of that first
  outflow, which is the amount itself when that is an integer number or a bigint. The
  destination of the outflow plays no part: the result is the same for the creator
  wallet and for any other address.
\<close>

theorem classify_withdraw_rule:
  assumes "\<not> truthy (transactionError tx)"
    and "\<forall>u \<in> set (nativeTransfers tx). \<not> (toUserAccount u = v \<and> fromUserAccount u \<noteq> w)"
    and "i < length (nativeTransfers tx)"
    and "fromUserAccount (nativeTransfers tx ! i) = v"
    and "\<forall>j<i. fromUserAccount (nativeTransfers tx ! j) \<noteq> v"
    and "\<not> hasSwapInstruction tx"
  shows "classifyTransaction (Some tx) v w m =
           Some \<lparr> ce_type = Withdraw,
                  amountLamports = safeBigInt (amount (nativeTransfers tx ! i)),
                  ce_signature = signature tx,
                  blockTime = new_Date (js_times (case timestamp tx of None \<Rightarrow> Finite 0
                                                  | Some ts \<Rightarrow> ts) (Finite 1000)),
                  burnedTokenMint = None, burnedTokenAmount = None \<rparr> \<and>
         (\<forall>n. amount (nativeTransfers tx ! i) = JSNumber (Finite (of_int n)) \<or>
              amount (nativeTransfers tx ! i) = JSBigInt n
              \<longrightarrow> safeBigInt (amount (nativeTransfers tx ! i)) = n)"
proof -
  note nc = no_collect_transfer[OF assms(2)]
  note out = first_outflow[OF assms(3,4,5)]
  have int: "\<forall>n. amount (nativeTransfers tx ! i) = JSNumber (Finite (of_int n)) \<or>
                amount (nativeTransfers tx ! i) = JSBigInt n
                \<longrightarrow> safeBigInt (amount (nativeTransfers tx ! i)) = n"
    by auto
  have "classifyTransaction (Some tx) v w m =
           Some \<lparr> ce_type = Withdraw,
                  amountLamports = safeBigInt (amount (nativeTransfers tx ! i)),
                  ce_signature = signature tx,
                  blockTime = new_Date (js_times (case timestamp tx of None \<Rightarrow> Finite 0
                                                  | Some ts \<Rightarrow> ts) (Finite 1000)),
                  burnedTokenMint = None, burnedTokenAmount = None \<rparr>"
    using assms(6) by (simp add: classify_no_collect[OF assms(1) nc out])
  with int show ?thesis
    by (intro conjI)
qed

theorem classify_withdraw_rule_witness:
  "classifyTransaction (Some (exampleTx [transfer ''vault'' ''wallet'' (lamports 900000000)]))
     ''vault'' ''wallet'' ''mint''
   = Some \<lparr> ce_type = Withdraw, amountLamports = 900000000, ce_signature = ''sig'',
            blockTime = DateValue 1700000000000,
            burnedTokenMint = None, burnedTokenAmount = None \<rparr> \<and>
   classifyTransaction
     (Some (exampleTx [transfer ''vault'' ''unknown-destination'' (lamports 250000000)]))
     ''vault'' ''wallet'' ''mint''
   = Some \<lparr> ce_type = Withdraw, amountLamports = 250000000, ce_signature = ''sig'',
            blockTime = DateValue 1700000000000,
            burnedTokenMint = None, burnedTokenAmount = None \<rparr>"
proof -
  have r: "classifyTransaction (Some (exampleTx [transfer ''vault'' dst (lamports n)]))
       ''vault'' ''wallet'' ''mint''
     = Some \<lparr> ce_type = Withdraw, amountLamports = n, ce_signature = ''sig'',
              blockTime = DateValue 1700000000000,
              burnedTokenMint = None, burnedTokenAmount = None \<rparr>"
    if dst: "dst \<noteq> ''vault''" for dst n
  proof -
    define out where "out = transfer ''vault'' dst (lamports n)"
    define tx where "tx = exampleTx [out]"
    have nts: "nativeTransfers tx = [out]"
      by (simp add: tx_def exampleTx_def)
    have h1: "\<not> truthy (transactionError tx)"
      by (simp add: tx_def exampleTx_def)
    have h2: "\<forall>u \<in> set (nativeTransfers tx).
        \<not> (toUserAccount u = ''vault'' \<and> fromUserAccount u \<noteq> ''wallet'')"
      using dst by (simp add: nts out_def transfer_def)
    have h3: "0 < length (nativeTransfers tx)"
      by (simp add: nts)
    have h4: "fromUserAccount (nativeTransfers tx ! 0) = ''vault''"
      by (simp add: nts out_def transfer_def)
    have h5: "\<forall>j<0. fromUserAccount (nativeTransfers tx ! j) \<noteq> ''vault''"
      by simp
    have h6: "\<not> hasSwapInstruction tx"
      by (simp add: hasSwapInstruction_def tx_def exampleTx_def)
    have sg: "signature tx = ''sig''" and ts: "timestamp tx = Some (Finite 1700000000)"
      by (simp_all add: tx_def exampleTx_def)
    have "safeBigInt (amount (nativeTransfers tx ! 0)) = n"
      by (simp add: nts out_def transfer_def lamports_def)
    with classify_withdraw_rule[OF h1 h2 h3 h4 h5 h6, of "''mint''", THEN conjunct1]
    show ?thesis
      by (simp add: sg ts exampleTx_blockTime) (simp add: tx_def out_def)
  qed
  show ?thesis
    using r[of "''wallet''" 900000000] r[of "''unknown-destination''" 250000000] by simp
qed

text \<open>
  The claim as worded fails for an outflow whose amount is the number \<open>3.5\<close>: without a
  swap pattern the withdraw event carries 3 lamports, not the outflow's magnitude. With
  two outflows, of 5 lamports to an unknown address and of 7 lamports to the creator
  wallet, the event carries 5: the second outflow is a native transfer out of the vault
  as well, and its magnitude is not the amount of the event.
\<close>

theorem classify_withdraw_counterexample:
  "classifyTransaction
     (Some (exampleTx [transfer ''vault'' ''wallet'' (JSNumber (Finite (7 / 2)))]))
     ''vault'' ''wallet'' ''mint''
   = Some \<lparr> ce_type = Withdraw, amountLamports = 3, ce_signature = ''sig'',
            blockTime = DateValue 1700000000000,
            burnedTokenMint = None, burnedTokenAmount = None \<rparr> \<and>
   (of_int 3 :: rat) \<noteq> 7 / 2 \<and>
   classifyTransaction
     (Some (exampleTx [transfer ''vault'' ''unknown-destination'' (lamports 5),
                       transfer ''vault'' ''wallet'' (lamports 7)]))
     ''vault'' ''wallet'' ''mint''
   = Some \<lparr> ce_type = Withdraw, amountLamports = 5, ce_signature = ''sig'',
            blockTime = DateValue 1700000000000,
            burnedTokenMint = None, burnedTokenAmount = None \<rparr>"
proof -
  have fl: "\<lfloor>7 / 2 :: rat\<rfloor> = 3"
    by (rule floor_unique) simp_all
  have 1: "classifyTransaction
     (Some (exampleTx [transfer ''vault'' ''wallet'' (JSNumber (Finite (7 / 2)))]))
     ''vault'' ''wallet'' ''mint''
   = Some \<lparr> ce_type = Withdraw, amountLamports = 3, ce_signature = ''sig'',
            blockTime = DateValue 1700000000000,
            burnedTokenMint = None, burnedTokenAmount = None \<rparr>"
    using fl by (simp add: classifyTransaction_def exampleTx_def transfer_def
        isCollectTransfer_def isVaultOutflow_def hasSwapInstruction_def
        exampleTx_blockTime)
  have 2: "(of_int 3 :: rat) \<noteq> 7 / 2"
    by simp
  have 3: "classifyTransaction
     (Some (exampleTx [transfer ''vault'' ''unknown-destination'' (lamports 5),
                       transfer ''vault'' ''wallet'' (lamports 7)]))
     ''vault'' ''wallet'' ''mint''
   = Some \<lparr> ce_type = Withdraw, amountLamports = 5, ce_signature = ''sig'',
            blockTime = DateValue 1700000000000,
            burnedTokenMint = None, burnedTokenAmount = None \<rparr>"
    by (simp add: classifyTransaction_def exampleTx_def transfer_def lamports_def
        isCollectTransfer_def isVaultOutflow_def hasSwapInstruction_def
        exampleTx_blockTime)
  from 1 2 3 show ?thesis
    by (intro conjI)
qed

lemma classify_amount_source:
  assumes "classifyTransaction (Some tx) v w m = Some e"
  shows "\<exists>t. (find (isCollectTransfer v w) (nativeTransfers tx) = Some t \<or>
              (find (isCollectTransfer v w) (nativeTransfers tx) = None \<and>
               find (isVaultOutflow v) (nativeTransfers tx) = Some t)) \<and>
             amountLamports e = safeBigInt (amount t)"
proof -
  from assms have ne: "\<not> truthy (transactionError tx)"
    by (auto simp: classifyTransaction_def split: if_splits)
  show ?thesis
  proof (cases "find (isCollectTransfer v w) (nativeTransfers tx)")
    case (Some c)
    with assms ne show ?thesis
      by (auto simp: classify_collect_found)
  next
    case None
    show ?thesis
    proof (cases "find (isVaultOutflow v) (nativeTransfers tx)")
      case noOut: None
      with None assms show ?thesis
        by (simp add: classify_nothing)
    next
      case (Some out)
      from assms have "amountLamports e = safeBigInt (amount out)"
        unfolding classify_no_collect[OF ne None Some]
        by (auto split: if_splits option.splits)
      with None Some show ?thesis
        by simp
    qed
  qed
qed

lemma safeBigInt_nonneg: "nonNegativeAmount x \<Longrightarrow> 0 \<le> safeBigInt x"
proof (cases x)
  case (JSNumber y)
  assume "nonNegativeAmount x"
  with JSNumber show ?thesis
    by (cases y) simp_all
next
  case (JSString s)
  show ?thesis
    unfolding JSString by (simp add: BigInt_string_digits)
qed simp_all

text \<open>
  Claim C8, as the code has it. The coercion is total and its \<open>try\<close> block never reaches
  the \<open>catch\<close>: a bigint of any size passes through unchanged, a finite number is rounded
  down to the next integer (which is truncation toward zero only for a non-negative
  number), a string of digits is read as a decimal numeral, and every other value gives
  zero. Every event the classifier produces carries the coerced amount of the native
  transfer its rule selected, which is non-negative whenever the amounts of the native
  transfers are non-negative numbers, non-negative bigints, strings or other values.
\<close>

theorem safeBigInt_coercion:
  "safeBigInt (JSBigInt n) = n \<and>
   BigInt_number (Math_floor (Finite q)) = Some \<lfloor>q\<rfloor> \<and>
   safeBigInt (JSNumber (Finite q)) = \<lfloor>q\<rfloor> \<and>
   (0 \<le> q \<longrightarrow> safeBigInt (JSNumber (Finite q)) = truncate_toward_zero q) \<and>
   (isDigitString s \<longrightarrow>
      BigInt_string s = Some (int (digits_value s)) \<and>
      safeBigInt (JSString s) = int (digits_value s)) \<and>
   ((\<forall>k. x \<noteq> JSBigInt k) \<and> (\<forall>r. x \<noteq> JSNumber (Finite r)) \<and>
    (\<forall>d. isDigitString d \<longrightarrow> x \<noteq> JSString d) \<longrightarrow> safeBigInt x = 0) \<and>
   (classifyTransaction (Some tx) v w m = Some e \<longrightarrow>
      (\<exists>t. (find (isCollectTransfer v w) (nativeTransfers tx) = Some t \<or>
            (find (isCollectTransfer v w) (nativeTransfers tx) = None \<and>
             find (isVaultOutflow v) (nativeTransfers tx) = Some t)) \<and>
           amountLamports e = safeBigInt (amount t)) \<and>
      ((\<forall>t \<in> set (nativeTransfers tx). nonNegativeAmount (amount t)) \<longrightarrow>
         0 \<le> amountLamports e))"
proof (intro conjI impI)
  show "safeBigInt (JSBigInt n) = n"
    by simp
  show "BigInt_number (Math_floor (Finite q)) = Some \<lfloor>q\<rfloor>"
    by simp
  show "safeBigInt (JSNumber (Finite q)) = \<lfloor>q\<rfloor>"
    by simp
  show "safeBigInt (JSNumber (Finite q)) = truncate_toward_zero q" if "0 \<le> q"
    using that by (simp add: truncate_toward_zero_def)
  show "BigInt_string s = Some (int (digits_value s))" if "isDigitString s"
    using that by (rule BigInt_string_digits)
  show "safeBigInt (JSString s) = int (digits_value s)" if "isDigitString s"
    using that by (simp add: BigInt_string_digits)
  show "safeBigInt x = 0"
    if "(\<forall>k. x \<noteq> JSBigInt k) \<and> (\<forall>r. x \<noteq> JSNumber (Finite r)) \<and>
        (\<forall>d. isDigitString d \<longrightarrow> x \<noteq> JSString d)"
  proof (cases x)
    case (JSNumber y)
    with that show ?thesis
      by (cases y) simp_all
  next
    case (JSString d)
    with that have "\<not> isDigitString d"
      by auto
    with JSString show ?thesis
      by simp
  next
    case (JSBigInt k)
    with that show ?thesis
      by simp
  qed simp_all
  assume c: "classifyTransaction (Some tx) v w m = Some e"
  from classify_amount_source[OF c]
  show src: "\<exists>t. (find (isCollectTransfer v w) (nativeTransfers tx) = Some t \<or>
            (find (isCollectTransfer v w) (nativeTransfers tx) = None \<and>
             find (isVaultOutflow v) (nativeTransfers tx) = Some t)) \<and>
           amountLamports e = safeBigInt (amount t)" .
  assume nn: "\<forall>t \<in> set (nativeTransfers tx). nonNegativeAmount (amount t)"
  from src obtain t where "t \<in> set (nativeTransfers tx)"
    and "amountLamports e = safeBigInt (amount t)"
    by (auto dest: find_Some_holds)
  with nn show "0 \<le> amountLamports e"
    by (simp add: safeBigInt_nonneg)
qed

theorem safeBigInt_coercion_witness:
  "safeBigInt (JSBigInt (- 5)) = - 5 \<and>
   safeBigInt (JSNumber (Finite (5 / 2))) = 2 \<and>
   truncate_toward_zero (5 / 2) = 2 \<and>
   safeBigInt (JSString ''007'') = 7 \<and>
   safeBigInt (JSString ''-5'') = 0 \<and>
   0 \<le> amountLamports
         \<lparr> ce_type = Collect, amountLamports = 1000000000, ce_signature = ''sig'',
           blockTime = DateValue 1700000000000,
           burnedTokenMint = None, burnedTokenAmount = None \<rparr>"
proof -
  define tx where "tx = exampleTx [transfer ''buyer'' ''vault'' (lamports 1000000000)]"
  define e where "e = \<lparr> ce_type = Collect, amountLamports = 1000000000,
      ce_signature = ''sig'', blockTime = DateValue 1700000000000,
      burnedTokenMint = None, burnedTokenAmount = None \<rparr>"
  note T = safeBigInt_coercion[of "- 5" "5 / 2" "''007''" "JSString ''-5''" tx
      "''vault''" "''wallet''" "''mint''" e]
  have d: "isDigitString ''007''"
    by (simp add: isDigitString_def isDigit_def)
  have nd: "\<not> isDigitString ''-5''"
    by (simp add: isDigitString_def isDigit_def)
  have q: "(0::rat) \<le> 5 / 2"
    by simp
  have fl: "\<lfloor>5 / 2 :: rat\<rfloor> = 2"
    by (rule floor_unique) simp_all
  have dv: "digits_value ''007'' = 7"
    by (simp add: digits_value_def digit_val_def)
  have cls: "classifyTransaction (Some tx) ''vault'' ''wallet'' ''mint'' = Some e"
    by (simp add: classifyTransaction_def tx_def e_def exampleTx_def transfer_def
        isCollectTransfer_def lamports_def exampleTx_blockTime)
  have nn: "\<forall>t \<in> set (nativeTransfers tx). nonNegativeAmount (amount t)"
    by (simp add: tx_def exampleTx_def transfer_def lamports_def)
  from T have "safeBigInt (JSBigInt (- 5)) = - 5"
    by (elim conjE)
  moreover from T fl have "safeBigInt (JSNumber (Finite (5 / 2))) = 2"
    by (elim conjE) simp
  moreover from T q fl have "truncate_toward_zero (5 / 2) = 2"
    by (elim conjE) simp
  moreover from T d dv have "safeBigInt (JSString ''007'') = 7"
    by (elim conjE) simp
  moreover from T nd have "safeBigInt (JSString ''-5'') = 0"
    by (elim conjE) auto
  moreover from T cls nn have "0 \<le> amountLamports e"
    by (elim conjE) simp
  ultimately show ?thesis
    by (simp add: e_def)
qed

text \<open>
  The claim as worded fails for a native transfer whose amount is the number \<open>-1.5\<close>:
  the coercion gives \<open>-2\<close>, where truncation toward zero gives \<open>-1\<close>, and the collect
  event carries the negative amount \<open>-2\<close>.
\<close>

theorem safeBigInt_negative_counterexample:
  "safeBigInt (JSNumber (Finite (- 3 / 2))) = - 2 \<and>
   truncate_toward_zero (- 3 / 2) = - 1 \<and>
   classifyTransaction
     (Some (exampleTx [transfer ''buyer'' ''vault'' (JSNumber (Finite (- 3 / 2)))]))
     ''vault'' ''wallet'' ''mint''
   = Some \<lparr> ce_type = Collect, amountLamports = - 2, ce_signature = ''sig'',
            blockTime = DateValue 1700000000000,
            burnedTokenMint = None, burnedTokenAmount = None \<rparr>"
proof -
  have fl: "\<lfloor>- (3 / 2) :: rat\<rfloor> = - 2"
    by (rule floor_unique) simp_all
  have fl': "\<lfloor>3 / 2 :: rat\<rfloor> = 1"
    by (rule floor_unique) simp_all
  have 1: "safeBigInt (JSNumber (Finite (- 3 / 2))) = - 2"
    using fl by simp
  have 2: "truncate_toward_zero (- 3 / 2) = - 1"
    using fl' by (simp add: truncate_toward_zero_def)
  have 3: "classifyTransaction
     (Some (exampleTx [transfer ''buyer'' ''vault'' (JSNumber (Finite (- 3 / 2)))]))
     ''vault'' ''wallet'' ''mint''
   = Some \<lparr> ce_type = Collect, amountLamports = - 2, ce_signature = ''sig'',
            blockTime = DateValue 1700000000000,
            burnedTokenMint = None, burnedTokenAmount = None \<rparr>"
    using fl by (simp add: classifyTransaction_def exampleTx_def transfer_def
        isCollectTransfer_def exampleTx_blockTime)
  from 1 2 3 show ?thesis
    by (intro conjI)
qed


section \<open>Properties of the ledger\<close>

lemma sum_absent:
  "\<not> list_ex P rows \<Longrightarrow> sum_list (map f (filter P rows)) = 0"
  by (induction rows) auto

lemma statsLoop_groupBy:
  "statsLoop (groupBy_eventType feeEvents tid) (0, 0, 0) =
     (sumByType feeEvents tid Collect, sumByType feeEvents tid Burn,
      sumByType feeEvents tid Withdraw)"
proof -
  define rows where "rows = filter (\<lambda>r. tokenId r = tid) feeEvents"
  have s: "sumByType feeEvents tid ty =
      sum_list (map fe_amountLamports (filter (\<lambda>r. eventType r = ty) rows))" for ty
    by (simp add: sumByType_def rows_def conj_commute)
  have z: "\<not> list_ex (\<lambda>r. eventType r = ty) rows \<Longrightarrow> sumByType feeEvents tid ty = 0" for ty
    unfolding s by (rule sum_absent)
  show ?thesis
    unfolding groupBy_eventType_def Let_def rows_def[symmetric]
    by (simp add: s[symmetric] z)
qed

lemma recalculateTokenStats_totals:
  "totalFeesCollected (recalculateTokenStats feeEvents tid) = sumByType feeEvents tid Collect"
  "totalFeesBurned (recalculateTokenStats feeEvents tid) = sumByType feeEvents tid Burn"
  "totalFeesWithdrawn (recalculateTokenStats feeEvents tid) = sumByType feeEvents tid Withdraw"
  "burnPercentage (recalculateTokenStats feeEvents tid) =
     calculateBurnPercentage (sumByType feeEvents tid Collect) (sumByType feeEvents tid Burn)"
  by (simp_all add: recalculateTokenStats_def statsLoop_groupBy Let_def)



lemma saveEvent_duplicate:
  assumes "list_ex (\<lambda>r. fe_signature r = ce_signature event) feeEvents"
  shows "saveEvent feeEvents tid event = feeEvents"
  using assms by (simp add: saveEvent_def createFeeEvent_def feeEventRow_def)

lemma saveEvent_new:
  assumes "\<not> list_ex (\<lambda>r. fe_signature r = ce_signature event) feeEvents"
  shows "saveEvent feeEvents tid event = feeEvents @ [feeEventRow tid event]"
  using assms by (simp add: saveEvent_def createFeeEvent_def feeEventRow_def)

lemma bigint_div_nonneg: "0 \<le> a \<Longrightarrow> 0 < c \<Longrightarrow> bigint_div a c = a div c"
  by (cases "a = 0") (simp_all add: bigint_div_def)

lemma bigint_div_mono:
  assumes "a \<le> a'" and "0 < c"
  shows "bigint_div a c \<le> bigint_div a' c"
proof -
  consider "0 \<le> a" | "a < 0" "0 \<le> a'" | "a' < 0"
    using assms(1) by linarith
  then show ?thesis
  proof cases
    case 1
    with assms have "0 \<le> a'"
      by simp
    with 1 assms show ?thesis
      by (simp add: bigint_div_nonneg zdiv_mono1)
  next
    case 2
    from 2(1) assms(2) have "bigint_div a c = - (\<bar>a\<bar> div c)"
      by (simp add: bigint_div_def)
    moreover have "0 \<le> \<bar>a\<bar> div c"
      using assms(2) by (simp add: pos_imp_zdiv_nonneg_iff)
    moreover have "0 \<le> bigint_div a' c"
      using 2(2) assms(2) by (simp add: bigint_div_nonneg pos_imp_zdiv_nonneg_iff)
    ultimately show ?thesis
      by simp
  next
    case 3
    with assms have "a < 0"
      by simp
    with 3 assms(2) have "bigint_div a c = - (\<bar>a\<bar> div c)" "bigint_div a' c = - (\<bar>a'\<bar> div c)"
      by (simp_all add: bigint_div_def)
    moreover have "\<bar>a'\<bar> div c \<le> \<bar>a\<bar> div c"
      using 3 assms \<open>a < 0\<close> by (intro zdiv_mono1) simp_all
    ultimately show ?thesis
      by simp
  qed
qed

lemma calculateBurnPercentage_zero: "calculateBurnPercentage 0 b = Finite 0"
  by (simp add: calculateBurnPercentage_def)

lemma calculateBurnPercentage_value:
  assumes "c \<noteq> 0" and "\<bar>bigint_div (b * 10000) c\<bar> < 2 ^ 50"
  shows "calculateBurnPercentage c b =
           round_double (of_int (bigint_div (b * 10000) c) / 100)"
proof -
  define q where "q = bigint_div (b * 10000) c"
  have "\<bar>q\<bar> \<le> 2 ^ 53"
    using assms(2) unfolding q_def by simp
  then have n: "Number_bigint q = Finite (of_int q)"
    unfolding Number_bigint_def by (rule round_double_int)
  have r: "Math_round (js_times (js_divide (Finite (of_int q)) (Finite 100)) (Finite 100)) =
      Finite (of_int q)"
    using assms(2) unfolding q_def by (rule hundredths_round_trip)
  show ?thesis
    using assms(1) unfolding calculateBurnPercentage_def Let_def q_def[symmetric] n r
    by simp
qed

lemma calculateBurnPercentage_mono:
  assumes "0 \<le> c" and "b \<le> b'"
  shows "js_le (calculateBurnPercentage c b) (calculateBurnPercentage c b')"
proof (cases "c = 0")
  case True
  then show ?thesis
    by (simp add: calculateBurnPercentage_def)
next
  case False
  with assms have c: "0 < c"
    by simp
  from assms(2) have "b * 10000 \<le> b' * 10000"
    by simp
  from bigint_div_mono[OF this c]
  have "js_le (Number_bigint (bigint_div (b * 10000) c))
      (Number_bigint (bigint_div (b' * 10000) c))"
    by (rule Number_bigint_mono)
  then have "js_le (js_divide (Number_bigint (bigint_div (b * 10000) c)) (Finite 100))
      (js_divide (Number_bigint (bigint_div (b' * 10000) c)) (Finite 100))"
    by (intro js_divide_mono) simp_all
  then have "js_le
      (js_times (js_divide (Number_bigint (bigint_div (b * 10000) c)) (Finite 100))
         (Finite 100))
      (js_times (js_divide (Number_bigint (bigint_div (b' * 10000) c)) (Finite 100))
         (Finite 100))"
    by (intro js_times_mono) simp_all
  then have "js_le
      (js_divide (Math_round
         (js_times (js_divide (Number_bigint (bigint_div (b * 10000) c)) (Finite 100))
            (Finite 100))) (Finite 100))
      (js_divide (Math_round
         (js_times (js_divide (Number_bigint (bigint_div (b' * 10000) c)) (Finite 100))
            (Finite 100))) (Finite 100))"
    by (intro js_divide_mono Math_round_mono) simp_all
  with False show ?thesis
    by (simp add: calculateBurnPercentage_def Let_def)
qed

lemma calculateBurnPercentage_none: "0 < c \<Longrightarrow> calculateBurnPercentage c 0 = Finite 0"
  using calculateBurnPercentage_value[of c 0]
  by (simp add: bigint_div_def round_double_def)

lemma calculateBurnPercentage_all: "0 < c \<Longrightarrow> calculateBurnPercentage c c = Finite 100"
proof -
  assume c: "0 < c"
  then have q: "bigint_div (c * 10000) c = 10000"
    by (simp add: bigint_div_def abs_mult)
  have "round_double 100 = Finite 100"
    using round_double_int[of 100] by simp
  with c q calculateBurnPercentage_value[of c c] show ?thesis
    by simp
qed

lemma calculateBurnPercentage_range:
  assumes "0 \<le> b" and "b \<le> c"
  shows "js_le (Finite 0) (calculateBurnPercentage c b) \<and>
         js_le (calculateBurnPercentage c b) (Finite 100)"
proof (cases "c = 0")
  case True
  then show ?thesis
    by (simp add: calculateBurnPercentage_def)
next
  case False
  with assms have c: "0 < c"
    by simp
  from calculateBurnPercentage_mono[of c 0 b] calculateBurnPercentage_mono[of c b c]
    assms c
  show ?thesis
    by (simp add: calculateBurnPercentage_none calculateBurnPercentage_all)
qed



lemma sumByType_append:
  "sumByType (feeEvents @ [row]) tid ty =
     sumByType feeEvents tid ty +
       (if tokenId row = tid \<and> eventType row = ty then fe_amountLamports row else 0)"
  by (simp add: sumByType_def)

lemma sumByType_saveEvent_other:
  assumes "ce_type event \<noteq> ty"
  shows "sumByType (saveEvent feeEvents tid' event) tid ty = sumByType feeEvents tid ty"
proof (cases "list_ex (\<lambda>r. fe_signature r = ce_signature event) feeEvents")
  case True
  then show ?thesis
    by (simp add: saveEvent_duplicate)
next
  case False
  with assms show ?thesis
    by (simp add: saveEvent_new sumByType_append feeEventRow_def)
qed

lemma sumByType_saveEvent_ge:
  assumes "0 \<le> amountLamports event"
  shows "sumByType feeEvents tid ty \<le> sumByType (saveEvent feeEvents tid' event) tid ty"
proof (cases "list_ex (\<lambda>r. fe_signature r = ce_signature event) feeEvents")
  case True
  then show ?thesis
    by (simp add: saveEvent_duplicate)
next
  case False
  with assms show ?thesis
    by (simp add: saveEvent_new sumByType_append feeEventRow_def)
qed

text \<open>
  Claim C7, as the code has it. The stored burn percentage is computed from the stored
  totals, which are the sums of the token's collect and burn events. It is exactly zero
  when nothing was collected. Otherwise it is derived from the bigint quotient
  \<open>10000 \<times> burned / collected\<close>, which is cut off toward zero (for a positive collected
  and a non-negative burned total it is the floor of the ratio): as long as the quotient
  is below \<open>2^50\<close> in magnitude, the burn percentage is the double nearest to a hundredth
  of that quotient, not the exact ratio rounded to the nearest hundredth. It lies between
  0 and 100 when the burned total is not negative and does not exceed the collected
  total. It does not decrease when the burned total grows and the collected total is not
  negative; so saving a further burn event with a non-negative amount leaves the
  collected total as it is and does not lower the burn percentage, provided the
  collected total is not negative.
\<close>

theorem burnPercentage_properties:
  "totalFeesCollected (recalculateTokenStats feeEvents tid) = sumByType feeEvents tid Collect \<and>
   totalFeesBurned (recalculateTokenStats feeEvents tid) = sumByType feeEvents tid Burn \<and>
   burnPercentage (recalculateTokenStats feeEvents tid) =
     calculateBurnPercentage (sumByType feeEvents tid Collect) (sumByType feeEvents tid Burn) \<and>
   calculateBurnPercentage 0 b = Finite 0 \<and>
   (c \<noteq> 0 \<and> \<bar>bigint_div (b * 10000) c\<bar> < 2 ^ 50 \<longrightarrow>
      calculateBurnPercentage c b =
        round_double (of_int (bigint_div (b * 10000) c) / 100)) \<and>
   (0 < c \<and> 0 \<le> b \<longrightarrow> bigint_div (b * 10000) c = (b * 10000) div c) \<and>
   (0 \<le> b \<and> b \<le> c \<longrightarrow>
      js_le (Finite 0) (calculateBurnPercentage c b) \<and>
      js_le (calculateBurnPercentage c b) (Finite 100)) \<and>
   (0 \<le> c \<and> b \<le> b' \<longrightarrow>
      js_le (calculateBurnPercentage c b) (calculateBurnPercentage c b')) \<and>
   (ce_type event = Burn \<and> 0 \<le> amountLamports event \<and>
    0 \<le> sumByType feeEvents tid Collect \<longrightarrow>
      totalFeesCollected (recalculateTokenStats (saveEvent feeEvents tid' event) tid) =
        totalFeesCollected (recalculateTokenStats feeEvents tid) \<and>
      js_le (burnPercentage (recalculateTokenStats feeEvents tid))
        (burnPercentage (recalculateTokenStats (saveEvent feeEvents tid' event) tid)))"
proof (intro conjI impI)
  show "calculateBurnPercentage 0 b = Finite 0"
    by (rule calculateBurnPercentage_zero)
  show "calculateBurnPercentage c b = round_double (of_int (bigint_div (b * 10000) c) / 100)"
    if "c \<noteq> 0 \<and> \<bar>bigint_div (b * 10000) c\<bar> < 2 ^ 50"
    using that by (simp add: calculateBurnPercentage_value)
  show "bigint_div (b * 10000) c = (b * 10000) div c" if "0 < c \<and> 0 \<le> b"
    using that by (simp add: bigint_div_nonneg)
  show "js_le (Finite 0) (calculateBurnPercentage c b)" if "0 \<le> b \<and> b \<le> c"
    using that calculateBurnPercentage_range[of b c] by simp
  show "js_le (calculateBurnPercentage c b) (Finite 100)" if "0 \<le> b \<and> b \<le> c"
    using that calculateBurnPercentage_range[of b c] by simp
  show "js_le (calculateBurnPercentage c b) (calculateBurnPercentage c b')"
    if "0 \<le> c \<and> b \<le> b'"
    using that by (simp add: calculateBurnPercentage_mono)
next
  assume a: "ce_type event = Burn \<and> 0 \<le> amountLamports event \<and>
    0 \<le> sumByType feeEvents tid Collect"
  then have same: "sumByType (saveEvent feeEvents tid' event) tid Collect =
      sumByType feeEvents tid Collect"
    by (intro sumByType_saveEvent_other) simp
  then show "totalFeesCollected (recalculateTokenStats (saveEvent feeEvents tid' event) tid) =
        totalFeesCollected (recalculateTokenStats feeEvents tid)"
    by (simp add: recalculateTokenStats_totals)
  from a have "sumByType feeEvents tid Burn \<le> sumByType (saveEvent feeEvents tid' event) tid Burn"
    by (intro sumByType_saveEvent_ge) simp
  with a show "js_le (burnPercentage (recalculateTokenStats feeEvents tid))
        (burnPercentage (recalculateTokenStats (saveEvent feeEvents tid' event) tid))"
    by (simp add: recalculateTokenStats_totals same calculateBurnPercentage_mono)
qed (simp_all add: recalculateTokenStats_totals)

theorem burnPercentage_properties_witness:
  "burnPercentage
     (recalculateTokenStats
        (saveEvent (saveEvent [] 1 (exampleEvent Collect 1000 ''a'')) 1
           (exampleEvent Burn 250 ''b'')) 1) = Finite 25 \<and>
   js_le
     (burnPercentage
        (recalculateTokenStats
           (saveEvent (saveEvent [] 1 (exampleEvent Collect 1000 ''a'')) 1
              (exampleEvent Burn 250 ''b'')) 1))
     (burnPercentage
        (recalculateTokenStats
           (saveEvent
              (saveEvent (saveEvent [] 1 (exampleEvent Collect 1000 ''a'')) 1
                 (exampleEvent Burn 250 ''b'')) 1
              (exampleEvent Burn 500 ''c'')) 1)) \<and>
   js_le (calculateBurnPercentage 1000 250) (Finite 100) \<and>
   js_le (calculateBurnPercentage 1000 250) (calculateBurnPercentage 1000 750) \<and>
   calculateBurnPercentage 0 250 = Finite 0"
proof -
  define T0 where "T0 = saveEvent (saveEvent [] 1 (exampleEvent Collect 1000 ''a'')) 1
           (exampleEvent Burn 250 ''b'')"
  define ev where "ev = exampleEvent Burn 500 ''c''"
  note T = burnPercentage_properties[of T0 1 250 1000 750 ev 1]
  have rows: "T0 = [feeEventRow 1 (exampleEvent Collect 1000 ''a''),
                    feeEventRow 1 (exampleEvent Burn 250 ''b'')]"
    by (simp add: T0_def saveEvent_def createFeeEvent_def feeEventRow_def exampleEvent_def)
  have c: "sumByType T0 1 Collect = 1000" and b: "sumByType T0 1 Burn = 250"
    by (simp_all add: rows sumByType_def feeEventRow_def exampleEvent_def)
  have h: "ce_type ev = Burn \<and> 0 \<le> amountLamports ev \<and> 0 \<le> sumByType T0 1 Collect"
    by (simp add: c ev_def exampleEvent_def)
  have d: "bigint_div (250 * 10000) 1000 = 2500"
    by (simp add: bigint_div_def)
  have rd: "round_double 25 = Finite 25"
    using round_double_int[of 25] by simp
  from T c b have "burnPercentage (recalculateTokenStats T0 1) = calculateBurnPercentage 1000 250"
    by (elim conjE) simp
  moreover from T d rd have "calculateBurnPercentage 1000 250 = Finite 25"
    by (elim conjE) simp
  moreover from T h have "js_le (burnPercentage (recalculateTokenStats T0 1))
      (burnPercentage (recalculateTokenStats (saveEvent T0 1 ev) 1))"
    by (elim conjE) simp
  moreover from T have "js_le (calculateBurnPercentage 1000 250) (Finite 100)"
    by (elim conjE) simp
  moreover from T
  have "js_le (calculateBurnPercentage 1000 250) (calculateBurnPercentage 1000 750)"
    by (elim conjE) simp
  moreover from T have "calculateBurnPercentage 0 250 = Finite 0"
    by (elim conjE)
  ultimately show ?thesis
    unfolding T0_def ev_def by simp
qed

lemma near_hundredths:
  assumes "0 < q" and "q < 2 ^ 50"
  shows "\<exists>r. round_double (of_int q / 100) = Finite r \<and>
             \<bar>r - of_int q / 100\<bar> \<le> of_int q / 100 / 2 ^ 53"
proof -
  define x :: rat where "x = of_int q / 100"
  have q1: "(1 :: rat) \<le> of_int q"
    using assms(1) by simp
  have "(of_int q :: rat) < of_int (2 ^ 50)"
    using assms(2) by (simp only: of_int_less_iff)
  then have q2: "(of_int q :: rat) < 1125899906842624"
    by simp
  have x0: "\<bar>x\<bar> = x"
    using q1 by (simp add: x_def)
  have "2 powi (- 1022) \<le> x"
    using small_power q1 unfolding x_def by linarith
  then have x1: "2 powi (- 1022) \<le> \<bar>x\<bar>"
    by (simp only: x0)
  have "x < 2 ^ 1023"
    using large_power q2 unfolding x_def by linarith
  then have x2: "\<bar>x\<bar> < 2 ^ 1023"
    by (simp only: x0)
  from round_double_error[OF x1 x2] show ?thesis
    unfolding x0 unfolding x_def .
qed

text \<open>
  The claim as worded fails for a token with one collect event of 3 lamports and one burn
  event of 5 lamports: the stored burn percentage is the double next to 166.66, which is
  above 100 and is not \<open>round2(100 \<times> 5 / 3) = 166.67\<close>. It also fails for the negative
  totals that negative event amounts produce: with a collected total of \<open>-3\<close>, a burned
  total of \<open>-5\<close> gives a burn percentage above 100, and raising the burned total from 0 to
  5 lowers the burn percentage from 0 to a negative number.
\<close>

theorem burnPercentage_counterexample:
  "(\<exists>r. burnPercentage
          (recalculateTokenStats
             (saveEvent (saveEvent [] 1 (exampleEvent Collect 3 ''a'')) 1
                (exampleEvent Burn 5 ''b'')) 1) = Finite r \<and>
        100 < r \<and> \<bar>r - 16666 / 100\<bar> < 1 / 1000) \<and>
   spec_burnPercentage 3 5 = 16667 / 100 \<and>
   (\<exists>r. calculateBurnPercentage (- 3) (- 5) = Finite r \<and> 100 < r) \<and>
   calculateBurnPercentage (- 3) 0 = Finite 0 \<and>
   (\<exists>r. calculateBurnPercentage (- 3) 5 = Finite r \<and> r < 0)"
proof -
  define T0 where "T0 = saveEvent (saveEvent [] 1 (exampleEvent Collect 3 ''a'')) 1
           (exampleEvent Burn 5 ''b'')"
  have rows: "T0 = [feeEventRow 1 (exampleEvent Collect 3 ''a''),
                    feeEventRow 1 (exampleEvent Burn 5 ''b'')]"
    by (simp add: T0_def saveEvent_def createFeeEvent_def feeEventRow_def exampleEvent_def)
  have c: "sumByType T0 1 Collect = 3" and b: "sumByType T0 1 Burn = 5"
    by (simp_all add: rows sumByType_def feeEventRow_def exampleEvent_def)
  from near_hundredths[of 16666] obtain r
    where r: "round_double (16666 / 100) = Finite r"
      and e: "\<bar>r - 16666 / 100\<bar> \<le> 16666 / 100 / 2 ^ 53"
    by auto
  have "(16666 / 100 / 2 ^ 53 :: rat) < 1 / 1000"
    by simp
  with e have e1: "100 < r" and e2: "\<bar>r - 16666 / 100\<bar> < 1 / 1000"
    by linarith+
  have q1: "bigint_div (5 * 10000) 3 = 16666"
    and q2: "bigint_div (- 5 * 10000) (- 3) = 16666"
    and q3: "bigint_div (5 * 10000) (- 3) = - 16666"
    and q4: "bigint_div (0 * 10000) (- 3) = 0"
    by (simp_all add: bigint_div_def)
  have v1: "calculateBurnPercentage 3 5 = Finite r"
    using calculateBurnPercentage_value[of 3 5] q1 r by simp
  have v2: "calculateBurnPercentage (- 3) (- 5) = Finite r"
    using calculateBurnPercentage_value[of "- 3" "- 5"] q2 r by simp
  have "round_double (- (16666 / 100)) = Finite (- r)"
    using r by (simp add: round_double_def)
  then have v3: "calculateBurnPercentage (- 3) 5 = Finite (- r)"
    using calculateBurnPercentage_value[of "- 3" 5] q3 by simp
  have v4: "calculateBurnPercentage (- 3) 0 = Finite 0"
    using calculateBurnPercentage_value[of "- 3" 0] q4 by (simp add: round_double_def)
  have 1: "\<exists>r. burnPercentage (recalculateTokenStats T0 1) = Finite r \<and>
        100 < r \<and> \<bar>r - 16666 / 100\<bar> < 1 / 1000"
    using v1 e1 e2 by (simp add: recalculateTokenStats_totals c b)
  have "\<lfloor>(100 * 5 / 3 :: rat) * 100 + 1 / 2\<rfloor> = 16667"
    by (rule floor_unique) simp_all
  then have 2: "spec_burnPercentage 3 5 = 16667 / 100"
    by (simp add: spec_burnPercentage_def round2_def)
  have 3: "\<exists>r. calculateBurnPercentage (- 3) (- 5) = Finite r \<and> 100 < r"
    using v2 e1 by simp
  have 5: "\<exists>r. calculateBurnPercentage (- 3) 5 = Finite r \<and> r < 0"
    using v3 e1 by simp
  from 1 2 3 v4 5 show ?thesis
    unfolding T0_def by (intro conjI)
qed


section \<open>Properties of the proof-of-history chain\<close>

subsection \<open>The verification loop\<close>

lemma verifyLoop_step:
  assumes "i < length s" and "checksAt H s i"
  shows "verifyLoop H s i = verifyLoop H s (i + 1)"
  using assms by (subst verifyLoop.simps) (auto simp: checksAt_def Let_def)

lemma verifyLoop_fail:
  assumes "i < length s" and "\<not> checksAt H s i"
  shows "\<exists>msg. verifyLoop H s i = chainInvalid i msg"
  using assms by (subst verifyLoop.simps) (auto simp: checksAt_def Let_def)

lemma verifyLoop_hash_fail:
  assumes "i < length s" and "\<not> verifyRecordHash H (s ! i)"
  shows "verifyLoop H s i = chainInvalid i (recordError (s ! i) ''Hash mismatch'')"
  using assms by (subst verifyLoop.simps) (simp add: Let_def)

lemma verifyLoop_end:
  assumes "length s \<le> i"
  shows "verifyLoop H s i = chainValid"
  using assms by (subst verifyLoop.simps) simp

lemma verifyLoop_skip:
  assumes "i \<le> k" and "k \<le> length s" and "\<forall>j. i \<le> j \<and> j < k \<longrightarrow> checksAt H s j"
  shows "verifyLoop H s i = verifyLoop H s k"
  using assms
proof (induction "k - i" arbitrary: i)
  case 0
  then show ?case
    by simp
next
  case (Suc n)
  then have i: "i < length s" and c: "checksAt H s i"
    by auto
  have "verifyLoop H s (i + 1) = verifyLoop H s k"
    using Suc by (intro Suc.hyps(1)) auto
  with verifyLoop_step[OF i c] show ?case
    by simp
qed

lemma verifyLoop_valid:
  assumes "\<forall>j. j < length s \<longrightarrow> checksAt H s j"
  shows "verifyLoop H s 0 = chainValid"
proof -
  have "verifyLoop H s 0 = verifyLoop H s (length s)"
    using assms by (intro verifyLoop_skip) auto
  then show ?thesis
    by (simp add: verifyLoop_end)
qed

lemma verifyLoop_first_fail:
  assumes "k < length s" and "\<not> checksAt H s k" and "\<forall>j. j < k \<longrightarrow> checksAt H s j"
  shows "\<exists>msg. verifyLoop H s 0 = chainInvalid k msg"
proof -
  have "verifyLoop H s 0 = verifyLoop H s k"
    using assms by (intro verifyLoop_skip) auto
  with verifyLoop_fail[OF assms(1,2)] show ?thesis
    by simp
qed

lemma verifyLoop_some_fail:
  assumes "p < length s" and "\<not> checksAt H s p"
  shows "\<exists>k msg. k \<le> p \<and> verifyLoop H s 0 = chainInvalid k msg"
proof -
  define k where "k = (LEAST j. \<not> checksAt H s j)"
  have nk: "\<not> checksAt H s k"
    unfolding k_def using assms(2) by (rule LeastI)
  have le: "k \<le> p"
    unfolding k_def using assms(2) by (rule Least_le)
  have "\<forall>j. j < k \<longrightarrow> checksAt H s j"
    unfolding k_def using not_less_Least by blast
  with verifyLoop_first_fail[of k s H] nk le assms(1) show ?thesis
    by (meson le_less_trans)
qed

lemma chainInvalid_not_valid: "chainInvalid k msg \<noteq> chainValid"
  by (simp add: chainInvalid_def chainValid_def)

subsection \<open>What the hash covers\<close>

lemma hashData_hash [simp]: "hashData (r \<lparr> hash := h \<rparr>) = hashData r"
  by (simp add: hashData_def)

lemma hashData_tokenSymbol [simp]: "hashData (r \<lparr> tokenSymbol := x \<rparr>) = hashData r"
  by (simp add: hashData_def)

lemma digit_char_0: "digit_char 0 = CHR ''0''"
proof -
  have "(of_char (digit_char 0) :: nat) = of_char (CHR ''0'')"
    by (simp add: digit_char_def)
  then show ?thesis
    by (simp only: of_char_eq_iff)
qed

lemma nat_toString_0: "nat_toString 0 = ''0''"
  by (subst nat_toString.simps) (simp add: digit_char_0)

lemma slotText_zero: "slotText (Some 0) = slotText None"
  by (simp add: slotText_def number_toString_def bigint_toString_def nat_toString_0)

lemma fromRow_fields [simp]:
  "sequence (fromRow r) = sequence r"
  "hash (fromRow r) = hash r"
  "prevHash (fromRow r) = prevHash r"
  "poh_timestamp (fromRow r) = poh_timestamp r"
  "poh_eventType (fromRow r) = poh_eventType r"
  "vault (fromRow r) = vault r"
  "tokenMint (fromRow r) = tokenMint r"
  "poh_amountLamports (fromRow r) = poh_amountLamports r"
  "poh_signature (fromRow r) = poh_signature r"
  by (simp_all add: fromRow_def)

lemma slotText_fromRow: "slotText (slot (fromRow r)) = slotText (slot r)"
proof (cases "slot r")
  case None
  then show ?thesis
    by (simp add: fromRow_def)
next
  case (Some n)
  then show ?thesis
    by (cases "n = 0") (simp_all add: fromRow_def slotText_zero)
qed

lemma hashData_fromRow [simp]: "hashData (fromRow r) = hashData r"
  unfolding hashData_def by (simp only: fromRow_fields slotText_fromRow)

lemma verifyRecordHash_sealRecord: "verifyRecordHash H (sealRecord H r)"
  by (simp add: verifyRecordHash_def sealRecord_def generateHash_def)

lemma verifyRecordHash_fromRow [simp]: "verifyRecordHash H (fromRow r) = verifyRecordHash H r"
  by (simp add: verifyRecordHash_def generateHash_def)

subsection \<open>Linked chains verify\<close>

lemma linkedFrom_nth:
  assumes "linkedFrom H p s c" and "i < length c"
  shows "sequence (c ! i) = s + 1 + int i \<and> verifyRecordHash H (c ! i) \<and>
         prevHash (c ! i) = (if i = 0 then p else hash (c ! (i - 1)))"
  using assms
proof (induction c arbitrary: p s i)
  case Nil
  then show ?case
    by simp
next
  case (Cons r rs)
  show ?case
  proof (cases i)
    case 0
    with Cons.prems show ?thesis
      by simp
  next
    case (Suc j)
    from Cons.prems(1) have l: "linkedFrom H (hash r) (s + 1) rs"
      by auto
    from Cons.prems(2) Suc have j: "j < length rs"
      by simp
    from Cons.IH[OF l j] Suc show ?thesis
      by (cases j) simp_all
  qed
qed

lemma linkedFrom_sorted:
  assumes "linkedFrom H p s c"
  shows "sorted (map sequence c)"
proof -
  have "sequence (c ! i) \<le> sequence (c ! j)" if "i \<le> j" "j < length c" for i j
    using that linkedFrom_nth[OF assms, of i] linkedFrom_nth[OF assms, of j] by simp
  then show ?thesis
    by (simp add: sorted_iff_nth_mono)
qed

lemma linkedFrom_sort [simp]:
  assumes "linkedFrom H p s c"
  shows "sort_key sequence c = c"
  using linkedFrom_sorted[OF assms] by (rule sort_key_id_if_sorted)

lemma linkedFrom_checksAt:
  assumes "linkedFrom H p s c" and "i < length c"
  shows "checksAt H c i"
proof (cases i)
  case 0
  with linkedFrom_nth[OF assms] show ?thesis
    by (simp add: checksAt_def)
next
  case (Suc j)
  with assms(2) have "j < length c"
    by simp
  from linkedFrom_nth[OF assms] linkedFrom_nth[OF assms(1) this] Suc show ?thesis
    by (simp add: checksAt_def)
qed

lemma verifyChain_linked:
  assumes "linkedFrom H p s c" and "s = 0 \<longrightarrow> p = GENESIS_HASH"
  shows "verifyChain H c = chainValid"
proof (cases c)
  case Nil
  then show ?thesis
    by (simp add: verifyChain_def)
next
  case (Cons r rs)
  then have pos: "0 < length c"
    by simp
  have srt: "sort_key sequence c = c"
    using assms(1) by (rule linkedFrom_sort)
  from linkedFrom_nth[OF assms(1) pos] assms(2)
  have gen: "\<not> (prevHash (c ! 0) \<noteq> GENESIS_HASH \<and> sequence (c ! 0) = 1)"
    by auto
  have "verifyLoop H c 0 = chainValid"
    using linkedFrom_checksAt[OF assms(1)] by (intro verifyLoop_valid) simp
  with gen pos show ?thesis
    unfolding verifyChain_def Let_def srt by auto
qed

lemma linkedFrom_append:
  "linkedFrom H p s (c @ [r]) =
     (linkedFrom H p s c \<and> verifyRecordHash H r \<and>
      prevHash r = fst (chainTail p s c) \<and> sequence r = snd (chainTail p s c) + 1)"
  by (induction c arbitrary: p s) auto

lemma chainTail_append: "chainTail p s (c @ [r]) = (hash r, sequence r)"
  by (induction c arbitrary: p s) auto

lemma linkedFrom_map_fromRow [simp]:
  "linkedFrom H p s (map fromRow c) = linkedFrom H p s c"
  by (induction c arbitrary: p s) auto

lemma chainTail_length:
  assumes "linkedFrom H p s c"
  shows "snd (chainTail p s c) = s + int (length c)"
  using assms by (induction c arbitrary: p s) auto

subsection \<open>Appending keeps the chain linked\<close>

lemma nextRecord_fields [simp]:
  "sequence (nextRecord H now mgr event) = lastSequence mgr + 1"
  "prevHash (nextRecord H now mgr event) = lastHash mgr"
  "tokenMint (nextRecord H now mgr event) = mgr_tokenMint mgr"
  by (simp_all add: nextRecord_def sealRecord_def)

lemma verifyRecordHash_nextRecord [simp]: "verifyRecordHash H (nextRecord H now mgr event)"
  by (simp add: nextRecord_def verifyRecordHash_sealRecord)

lemma advance_fields [simp]:
  "mgr_tokenMint (advance mgr r) = mgr_tokenMint mgr"
  "lastHash (advance mgr r) = hash r"
  "lastSequence (advance mgr r) = sequence r"
  by (simp_all add: advance_def)

lemma addEvent_Inr:
  assumes "addEvent H now (mgr, rows) event = Inr (record, mgr', rows')"
  shows "record = nextRecord H now mgr event \<and> mgr' = advance mgr record \<and>
         rows' = rows @ [record]"
  using assms
  by (auto simp: addEvent_def Let_def poHRecord_create_def split: if_splits sum.splits)

lemma addEvent_invariant:
  assumes "linkedFrom H GENESIS_HASH 0 (filter (\<lambda>r. tokenMint r = mgr_tokenMint mgr) rows)"
    and "chainTail GENESIS_HASH 0 (filter (\<lambda>r. tokenMint r = mgr_tokenMint mgr) rows) =
           (lastHash mgr, lastSequence mgr)"
    and "addEvent H now (mgr, rows) event = Inr (record, mgr', rows')"
  shows "mgr_tokenMint mgr' = mgr_tokenMint mgr \<and>
         linkedFrom H GENESIS_HASH 0 (filter (\<lambda>r. tokenMint r = mgr_tokenMint mgr') rows') \<and>
         chainTail GENESIS_HASH 0 (filter (\<lambda>r. tokenMint r = mgr_tokenMint mgr') rows') =
           (lastHash mgr', lastSequence mgr')"
proof -
  from addEvent_Inr[OF assms(3)] have r: "record = nextRecord H now mgr event"
    and m: "mgr' = advance mgr record" and rows: "rows' = rows @ [record]"
    by simp_all
  show ?thesis
    using assms(1,2) by (simp add: r m rows linkedFrom_append chainTail_append)
qed

lemma addEvents_invariant:
  assumes "linkedFrom H GENESIS_HASH 0 (filter (\<lambda>r. tokenMint r = mgr_tokenMint mgr) rows)"
    and "chainTail GENESIS_HASH 0 (filter (\<lambda>r. tokenMint r = mgr_tokenMint mgr) rows) =
           (lastHash mgr, lastSequence mgr)"
    and "addEvents H (mgr, rows) evs = (mgr', rows')"
  shows "mgr_tokenMint mgr' = mgr_tokenMint mgr \<and>
         linkedFrom H GENESIS_HASH 0 (filter (\<lambda>r. tokenMint r = mgr_tokenMint mgr') rows') \<and>
         chainTail GENESIS_HASH 0 (filter (\<lambda>r. tokenMint r = mgr_tokenMint mgr') rows') =
           (lastHash mgr', lastSequence mgr')"
  using assms
proof (induction evs arbitrary: mgr rows)
  case Nil
  then show ?case
    by simp
next
  case (Cons ev evs)
  obtain event now where ev: "ev = (event, now)"
    by (cases ev)
  show ?case
  proof (cases "addEvent H now (mgr, rows) event")
    case (Inl e)
    with Cons.prems(3) ev have "addEvents H (mgr, rows) evs = (mgr', rows')"
      by simp
    from Cons.IH[OF Cons.prems(1,2) this] show ?thesis .
  next
    case (Inr res)
    obtain rcd mgr1 rows1 where res: "res = (rcd, mgr1, rows1)"
      by (cases res)
    from Inr res have a: "addEvent H now (mgr, rows) event = Inr (rcd, mgr1, rows1)"
      by simp
    note inv = addEvent_invariant[OF Cons.prems(1,2) a]
    from Cons.prems(3) ev a res have "addEvents H (mgr1, rows1) evs = (mgr', rows')"
      by simp
    note ih = Cons.IH[OF inv[THEN conjunct2, THEN conjunct1]
        inv[THEN conjunct2, THEN conjunct2] this]
    from ih have "mgr_tokenMint mgr' = mgr_tokenMint mgr1"
      by (rule conjunct1)
    with inv[THEN conjunct1] have "mgr_tokenMint mgr' = mgr_tokenMint mgr"
      by simp
    with ih[THEN conjunct2] show ?thesis
      by blast
  qed
qed

lemma getFullChain_linked:
  assumes "\<not> list_ex (\<lambda>r. tokenMint r = tm) rows0"
    and "addEvents H (newPoHChainManager tm, rows0) evs = (mgr, rows)"
  shows "linkedFrom H GENESIS_HASH 0 (getFullChain mgr rows)"
proof -
  from assms(1) have e: "filter (\<lambda>r. tokenMint r = tm) rows0 = []"
    by (simp add: list_ex_iff filter_empty_conv)
  have i1: "linkedFrom H GENESIS_HASH 0
      (filter (\<lambda>r. tokenMint r = mgr_tokenMint (newPoHChainManager tm)) rows0)"
    by (simp add: newPoHChainManager_def e)
  have i2: "chainTail GENESIS_HASH 0
      (filter (\<lambda>r. tokenMint r = mgr_tokenMint (newPoHChainManager tm)) rows0) =
      (lastHash (newPoHChainManager tm), lastSequence (newPoHChainManager tm))"
    by (simp add: newPoHChainManager_def e)
  from addEvents_invariant[OF i1 i2 assms(2)]
  have "linkedFrom H GENESIS_HASH 0 (filter (\<lambda>r. tokenMint r = mgr_tokenMint mgr) rows)"
    by (rule conjunct2[THEN conjunct1])
  then show ?thesis
    by (simp add: getFullChain_def)
qed

subsection \<open>Tampering with a record\<close>

lemma chainInvalid_eq: "chainInvalid k msg = chainInvalid k' msg' \<Longrightarrow> k = k'"
  by (simp add: chainInvalid_def)

lemma verifyChain_bad_record:
  assumes "x \<in> set rs" and "\<not> verifyRecordHash H x"
  shows "\<exists>k msg. verifyChain H rs = chainInvalid k msg \<and>
           (\<forall>p. p < length rs \<and> sort_key sequence rs ! p = x \<longrightarrow> k \<le> p)"
proof -
  define s where "s = sort_key sequence rs"
  have len: "length s = length rs" and ne: "length rs \<noteq> 0"
    using assms(1) by (auto simp: s_def)
  show ?thesis
  proof (cases "prevHash (s ! 0) \<noteq> GENESIS_HASH \<and> sequence (s ! 0) = 1")
    case True
    with ne have "verifyChain H rs =
        chainInvalid 0 ''First record does not link to genesis hash''"
      by (simp add: verifyChain_def Let_def s_def)
    then show ?thesis
      by auto
  next
    case False
    with ne have v: "verifyChain H rs = verifyLoop H s 0"
      by (auto simp: verifyChain_def Let_def s_def)
    from assms(1) have "x \<in> set s"
      by (simp add: s_def)
    then obtain p0 where p0: "p0 < length s" "s ! p0 = x"
      by (auto simp: in_set_conv_nth)
    with assms(2) have "\<not> checksAt H s p0"
      by (simp add: checksAt_def)
    from verifyLoop_some_fail[OF p0(1) this] obtain k0 msg0
      where k0: "verifyLoop H s 0 = chainInvalid k0 msg0"
      by blast
    have "k0 \<le> p" if "p < length rs \<and> s ! p = x" for p
    proof -
      from that assms(2) len have "p < length s" and "\<not> checksAt H s p"
        by (simp_all add: checksAt_def)
      from verifyLoop_some_fail[OF this] obtain k msg
        where "k \<le> p" and "verifyLoop H s 0 = chainInvalid k msg"
        by blast
      with k0 show ?thesis
        by (auto dest: chainInvalid_eq)
    qed
    then have "\<forall>p. p < length rs \<and> s ! p = x \<longrightarrow> k0 \<le> p"
      by blast
    moreover from v k0 have "verifyChain H rs = chainInvalid k0 msg0"
      by simp
    ultimately show ?thesis
      unfolding s_def by blast
  qed
qed

lemma same_sequence_update:
  assumes "i < length c" and "sequence x = sequence (c ! i)"
  shows "map sequence (c[i := x]) = map sequence c"
  using assms by (simp add: map_update list_update_same_conv)

lemma linked_update_sorted:
  assumes "linkedFrom H p s c" and "i < length c" and "sequence x = sequence (c ! i)"
  shows "sort_key sequence (c[i := x]) = c[i := x]"
proof -
  have "sorted (map sequence (c[i := x]))"
    using linkedFrom_sorted[OF assms(1)] same_sequence_update[OF assms(2,3)] by simp
  then show ?thesis
    by (rule sort_key_id_if_sorted)
qed

lemma checksAt_before_update:
  assumes "checksAt H c j" and "j < i"
  shows "checksAt H (c[i := x]) j"
  using assms by (simp add: checksAt_def)

lemma tamper_hash:
  assumes l: "linkedFrom H GENESIS_HASH 0 c" and i: "i < length c"
    and h: "h' \<noteq> hash (c ! i)"
  shows "verifyChain H (c[i := (c ! i) \<lparr> hash := h' \<rparr>]) =
           chainInvalid i (recordError (c ! i) ''Hash mismatch'')"
proof -
  define x where "x = (c ! i) \<lparr> hash := h' \<rparr>"
  define c' where "c' = c[i := x]"
  have sx: "sequence x = sequence (c ! i)"
    by (simp add: x_def)
  have srt: "sort_key sequence c' = c'"
    unfolding c'_def using l i sx by (rule linked_update_sorted)
  have len: "length c' = length c" and ne: "length c' \<noteq> 0" and pos: "0 < length c"
    using i by (auto simp: c'_def)
  have first: "prevHash (c' ! 0) = GENESIS_HASH"
    using linkedFrom_nth[OF l pos] i by (cases i) (simp_all add: c'_def x_def)
  have pre: "\<forall>j. 0 \<le> j \<and> j < i \<longrightarrow> checksAt H c' j"
    using linkedFrom_checksAt[OF l] i by (auto simp: c'_def intro: checksAt_before_update)
  have "verifyRecordHash H (c ! i)"
    using linkedFrom_nth[OF l i] by simp
  with h have bad: "\<not> verifyRecordHash H (c' ! i)"
    using i by (simp add: c'_def x_def verifyRecordHash_def generateHash_def)
  have "verifyLoop H c' 0 = verifyLoop H c' i"
    using i pre len by (intro verifyLoop_skip) simp_all
  also have "\<dots> = chainInvalid i (recordError (c' ! i) ''Hash mismatch'')"
    using i len bad by (intro verifyLoop_hash_fail) simp_all
  also have "recordError (c' ! i) ''Hash mismatch'' = recordError (c ! i) ''Hash mismatch''"
    using i by (simp add: recordError_def c'_def sx)
  finally show ?thesis
    using first ne unfolding c'_def[symmetric] x_def[symmetric]
    by (simp add: verifyChain_def Let_def srt)
qed

lemma tamper_prevHash:
  assumes l: "linkedFrom H GENESIS_HASH 0 c" and i: "i < length c"
    and h: "p' \<noteq> prevHash (c ! i)"
  shows "\<exists>msg. verifyChain H (c[i := (c ! i) \<lparr> prevHash := p' \<rparr>]) = chainInvalid i msg"
proof -
  define x where "x = (c ! i) \<lparr> prevHash := p' \<rparr>"
  define c' where "c' = c[i := x]"
  have sx: "sequence x = sequence (c ! i)"
    by (simp add: x_def)
  have srt: "sort_key sequence c' = c'"
    unfolding c'_def using l i sx by (rule linked_update_sorted)
  have len: "length c' = length c" and ne: "length c' \<noteq> 0" and pos: "0 < length c"
    using i by (auto simp: c'_def)
  show ?thesis
  proof (cases i)
    case 0
    with linkedFrom_nth[OF l i] h have "prevHash (c' ! 0) \<noteq> GENESIS_HASH"
      and "sequence (c' ! 0) = 1"
      using i by (simp_all add: c'_def x_def)
    with ne have "verifyChain H c' =
        chainInvalid 0 ''First record does not link to genesis hash''"
      by (simp add: verifyChain_def Let_def srt)
    with 0 show ?thesis
      unfolding c'_def x_def by blast
  next
    case (Suc j)
    have first: "prevHash (c' ! 0) = GENESIS_HASH"
      using linkedFrom_nth[OF l pos] i Suc by (simp add: c'_def)
    have pre: "\<forall>j. j < i \<longrightarrow> checksAt H c' j"
      using linkedFrom_checksAt[OF l] i by (auto simp: c'_def intro: checksAt_before_update)
    have "prevHash (c ! i) = hash (c ! (i - 1))"
      using linkedFrom_nth[OF l i] Suc by simp
    with h Suc i have "\<not> checksAt H c' i"
      by (simp add: checksAt_def c'_def x_def)
    from verifyLoop_first_fail[OF _ this pre] i len
    obtain msg where "verifyLoop H c' 0 = chainInvalid i msg"
      by auto
    with first ne have "verifyChain H c' = chainInvalid i msg"
      by (simp add: verifyChain_def Let_def srt)
    then show ?thesis
      unfolding c'_def x_def by blast
  qed
qed

lemma tamper_sequence:
  assumes i: "i < length c"
    and h: "generateHash H ((c ! i) \<lparr> sequence := s' \<rparr>) \<noteq> hash (c ! i)"
  shows "\<exists>k msg. verifyChain H (c[i := (c ! i) \<lparr> sequence := s' \<rparr>]) = chainInvalid k msg \<and>
           (\<forall>p. p < length c \<and>
                sort_key sequence (c[i := (c ! i) \<lparr> sequence := s' \<rparr>]) ! p =
                  (c ! i) \<lparr> sequence := s' \<rparr> \<longrightarrow> k \<le> p)"
proof -
  define x where "x = (c ! i) \<lparr> sequence := s' \<rparr>"
  have "x \<in> set (c[i := x])"
    using i by (simp add: set_update_memI)
  moreover have "\<not> verifyRecordHash H x"
    using h by (simp add: verifyRecordHash_def x_def)
  ultimately show ?thesis
    using verifyChain_bad_record[of x "c[i := x]" H] by (simp add: x_def)
qed

subsection \<open>Records that differ in the token symbol only\<close>

lemma sameExceptSymbol_fields:
  assumes "sameExceptSymbol a b"
  shows "sequence a = sequence b" "hash a = hash b" "prevHash a = prevHash b"
    "hashData a = hashData b"
proof -
  from assms have e: "a \<lparr> tokenSymbol := None \<rparr> = b \<lparr> tokenSymbol := None \<rparr>"
    by (simp add: sameExceptSymbol_def)
  from arg_cong[OF e, of sequence] show "sequence a = sequence b"
    by simp
  from arg_cong[OF e, of hash] show "hash a = hash b"
    by simp
  from arg_cong[OF e, of prevHash] show "prevHash a = prevHash b"
    by simp
  from arg_cong[OF e, of hashData] show "hashData a = hashData b"
    by simp
qed

lemma sameExceptSymbol_verify:
  assumes "sameExceptSymbol a b"
  shows "verifyRecordHash H a = verifyRecordHash H b"
  using sameExceptSymbol_fields[OF assms] by (simp add: verifyRecordHash_def generateHash_def)

lemma sameExceptSymbol_refl [simp]: "sameExceptSymbol a a"
  by (simp add: sameExceptSymbol_def)

lemma sameExceptSymbol_update [simp]:
  "sameExceptSymbol (a \<lparr> tokenSymbol := x \<rparr>) (a \<lparr> tokenSymbol := y \<rparr>)"
  by (simp add: sameExceptSymbol_def)

lemma insort_sameExceptSymbol:
  assumes "list_all2 sameExceptSymbol xs ys" and "sameExceptSymbol x y"
  shows "list_all2 sameExceptSymbol (insort_key sequence x xs) (insort_key sequence y ys)"
  using assms
proof (induction xs ys rule: list_all2_induct)
  case Nil
  then show ?case
    by simp
next
  case (Cons a xs b ys)
  from sameExceptSymbol_fields(1)[OF Cons.hyps(1)] sameExceptSymbol_fields(1)[OF Cons.prems]
  have "sequence a = sequence b" and "sequence x = sequence y" .
  with Cons show ?case
    by simp
qed

lemma sort_sameExceptSymbol:
  assumes "list_all2 sameExceptSymbol xs ys"
  shows "list_all2 sameExceptSymbol (sort_key sequence xs) (sort_key sequence ys)"
  using assms
  by (induction xs ys rule: list_all2_induct) (simp_all add: insort_sameExceptSymbol)

lemma checksAt_sameExceptSymbol:
  assumes "list_all2 sameExceptSymbol s s'" and "i < length s"
  shows "checksAt H s i = checksAt H s' i"
proof -
  have r: "sameExceptSymbol (s ! j) (s' ! j)" if "j < length s" for j
    using assms(1) that by (rule list_all2_nthD)
  show ?thesis
  proof (cases i)
    case 0
    with r[of 0] assms(2) show ?thesis
      by (simp add: checksAt_def sameExceptSymbol_verify)
  next
    case (Suc j)
    with assms(2) have "j < length s"
      by simp
    from sameExceptSymbol_fields[OF r[OF this]] sameExceptSymbol_fields[OF r[OF assms(2)]]
      sameExceptSymbol_verify[OF r[OF assms(2)], of H] Suc
    show ?thesis
      by (simp add: checksAt_def)
  qed
qed

lemma verifyLoop_sameExceptSymbol:
  assumes "list_all2 sameExceptSymbol s s'"
  shows "verifyLoop H s i = verifyLoop H s' i"
proof (induction "length s - i" arbitrary: i)
  case 0
  with list_all2_lengthD[OF assms] show ?case
    by (simp add: verifyLoop_end)
next
  case (Suc n)
  then have i: "i < length s"
    by simp
  with list_all2_lengthD[OF assms] have i': "i < length s'"
    by simp
  have r: "sameExceptSymbol (s ! j) (s' ! j)" if "j < length s" for j
    using assms that by (rule list_all2_nthD)
  have ih: "verifyLoop H s (Suc i) = verifyLoop H s' (Suc i)"
    using Suc by (intro Suc.hyps(1)) simp
  have e: "recordError (s ! i) what = recordError (s' ! i) what" for what
    using sameExceptSymbol_fields(1)[OF r[OF i]] by (simp add: recordError_def)
  have v: "verifyRecordHash H (s ! i) = verifyRecordHash H (s' ! i)"
    using r[OF i] by (rule sameExceptSymbol_verify)
  have f: "sequence (s ! i) = sequence (s' ! i)" "prevHash (s ! i) = prevHash (s' ! i)"
    using sameExceptSymbol_fields[OF r[OF i]] by simp_all
  have g: "sequence (s ! (i - Suc 0)) = sequence (s' ! (i - Suc 0))"
    "hash (s ! (i - Suc 0)) = hash (s' ! (i - Suc 0))"
    using sameExceptSymbol_fields[OF r[of "i - Suc 0"]] i by simp_all
  have l: "verifyLoop H s i =
      (if \<not> verifyRecordHash H (s ! i) then
         chainInvalid i (recordError (s ! i) ''Hash mismatch'')
       else if i > 0 \<and> prevHash (s ! i) \<noteq> hash (s ! (i - Suc 0)) then
         chainInvalid i (recordError (s ! i) ''Chain link broken'')
       else if i > 0 \<and> sequence (s ! i) \<noteq> sequence (s ! (i - Suc 0)) + 1 then
         chainInvalid i (recordError (s ! i) ''Sequence gap detected'')
       else verifyLoop H s (Suc i))"
    using i by (subst verifyLoop.simps) (simp add: Let_def)
  have l': "verifyLoop H s' i =
      (if \<not> verifyRecordHash H (s' ! i) then
         chainInvalid i (recordError (s' ! i) ''Hash mismatch'')
       else if i > 0 \<and> prevHash (s' ! i) \<noteq> hash (s' ! (i - Suc 0)) then
         chainInvalid i (recordError (s' ! i) ''Chain link broken'')
       else if i > 0 \<and> sequence (s' ! i) \<noteq> sequence (s' ! (i - Suc 0)) + 1 then
         chainInvalid i (recordError (s' ! i) ''Sequence gap detected'')
       else verifyLoop H s' (Suc i))"
    using i' by (subst verifyLoop.simps) (simp add: Let_def)
  show ?case
    unfolding l l' e v f g ih by (rule refl)
qed

lemma verifyChain_sameExceptSymbol:
  assumes "list_all2 sameExceptSymbol rs rs'"
  shows "verifyChain H rs = verifyChain H rs'"
proof -
  note s = sort_sameExceptSymbol[OF assms]
  have len: "length rs = length rs'"
    using assms by (rule list_all2_lengthD)
  show ?thesis
  proof (cases "length rs = 0")
    case True
    with len show ?thesis
      by (simp add: verifyChain_def)
  next
    case False
    then have "0 < length (sort_key sequence rs)"
      by simp
    from list_all2_nthD[OF s this]
    have "sameExceptSymbol (sort_key sequence rs ! 0) (sort_key sequence rs' ! 0)" .
    from sameExceptSymbol_fields[OF this] verifyLoop_sameExceptSymbol[OF s, of H 0] False len
    show ?thesis
      by (simp add: verifyChain_def Let_def)
  qed
qed

text \<open>
  Claim C10. The text that is hashed does not contain the token symbol. For a record and
  any two values of its \<open>tokenSymbol\<close> field, \<open>generateHash\<close> and \<open>verifyRecordHash\<close>
  give the same result on the two variants, and \<open>verifyChain\<close> gives the same result
  (validity, index and message) on two record lists that differ in the token symbol of
  the record at one index only.
\<close>

theorem tokenSymbol_not_hashed:
  "generateHash H (r \<lparr> tokenSymbol := x \<rparr>) = generateHash H (r \<lparr> tokenSymbol := y \<rparr>) \<and>
   verifyRecordHash H (r \<lparr> tokenSymbol := x \<rparr>) = verifyRecordHash H (r \<lparr> tokenSymbol := y \<rparr>) \<and>
   verifyChain H (rs[i := (rs ! i) \<lparr> tokenSymbol := x \<rparr>]) =
     verifyChain H (rs[i := (rs ! i) \<lparr> tokenSymbol := y \<rparr>])"
proof (intro conjI)
  show "generateHash H (r \<lparr> tokenSymbol := x \<rparr>) = generateHash H (r \<lparr> tokenSymbol := y \<rparr>)"
    by (simp add: generateHash_def)
  show "verifyRecordHash H (r \<lparr> tokenSymbol := x \<rparr>) =
      verifyRecordHash H (r \<lparr> tokenSymbol := y \<rparr>)"
    by (rule sameExceptSymbol_verify) simp
  have "list_all2 sameExceptSymbol (rs[i := (rs ! i) \<lparr> tokenSymbol := x \<rparr>])
      (rs[i := (rs ! i) \<lparr> tokenSymbol := y \<rparr>])"
    by (intro list_all2_update_cong list_all2_refl) simp_all
  then show "verifyChain H (rs[i := (rs ! i) \<lparr> tokenSymbol := x \<rparr>]) =
     verifyChain H (rs[i := (rs ! i) \<lparr> tokenSymbol := y \<rparr>])"
    by (rule verifyChain_sameExceptSymbol)
qed

text \<open>
  Claim C9. \<open>verifyChain\<close> compares the \<open>prevHash\<close> of the record with the lowest
  sequence number with the genesis hash only if that sequence number is 1. When it is not
  1 and every record of the sorted list passes the checks of the loop (its hash, and from
  the second record on the link and the sequence number), the result is valid, whatever
  the first record links to: a chain that continues any predecessor other than the
  genesis position verifies.
\<close>

theorem verifyChain_genesis_link_only_at_one:
  assumes "rs \<noteq> []" and "srt = sort_key sequence rs"
  shows "(sequence (srt ! 0) = 1 \<and> prevHash (srt ! 0) \<noteq> GENESIS_HASH \<longrightarrow>
            verifyChain H rs = chainInvalid 0 ''First record does not link to genesis hash'') \<and>
         (sequence (srt ! 0) \<noteq> 1 \<and> (\<forall>i. i < length srt \<longrightarrow> checksAt H srt i) \<longrightarrow>
            verifyChain H rs = chainValid) \<and>
         (s \<noteq> 0 \<and> linkedFrom H p s rs \<longrightarrow> verifyChain H rs = chainValid)"
proof (intro conjI impI)
  assume "sequence (srt ! 0) = 1 \<and> prevHash (srt ! 0) \<noteq> GENESIS_HASH"
  with assms show "verifyChain H rs =
      chainInvalid 0 ''First record does not link to genesis hash''"
    by (simp add: verifyChain_def Let_def)
next
  assume a: "sequence (srt ! 0) \<noteq> 1 \<and> (\<forall>i. i < length srt \<longrightarrow> checksAt H srt i)"
  then have "verifyLoop H srt 0 = chainValid"
    by (intro verifyLoop_valid) simp
  with a assms show "verifyChain H rs = chainValid"
    by (simp add: verifyChain_def Let_def)
next
  assume "s \<noteq> 0 \<and> linkedFrom H p s rs"
  then show "verifyChain H rs = chainValid"
    by (intro verifyChain_linked[of H p s]) simp_all
qed

text \<open>
  Claim C1, as the code has it. Starting from a table without records of the token and a
  new manager, after any list of appends (a rejected append leaves everything as it
  was) the chain read back from the table verifies. In that chain, replacing the hash of
  the record at index \<open>i\<close> by another value makes verification fail at index \<open>i\<close> with a
  hash mismatch; replacing its \<open>prevHash\<close> by another value makes it fail at index \<open>i\<close>;
  replacing its sequence number makes it fail whenever the stored hash is not the hash of
  the altered record, at an index that is at or before every position the altered record
  takes in the list sorted by sequence number (the list the loop runs over).
\<close>

theorem chain_integrity:
  assumes "\<not> list_ex (\<lambda>r. tokenMint r = tm) rows0"
    and "addEvents H (newPoHChainManager tm, rows0) evs = (mgr, rows)"
    and "c = getFullChain mgr rows"
  shows "verifyChain H c = chainValid \<and>
     (\<forall>i h'. i < length c \<and> h' \<noteq> hash (c ! i) \<longrightarrow>
        verifyChain H (c[i := (c ! i) \<lparr> hash := h' \<rparr>]) =
          chainInvalid i (recordError (c ! i) ''Hash mismatch'')) \<and>
     (\<forall>i p'. i < length c \<and> p' \<noteq> prevHash (c ! i) \<longrightarrow>
        (\<exists>msg. verifyChain H (c[i := (c ! i) \<lparr> prevHash := p' \<rparr>]) = chainInvalid i msg)) \<and>
     (\<forall>i s'. i < length c \<and> s' \<noteq> sequence (c ! i) \<and>
          generateHash H ((c ! i) \<lparr> sequence := s' \<rparr>) \<noteq> hash (c ! i) \<longrightarrow>
        (\<exists>k msg. verifyChain H (c[i := (c ! i) \<lparr> sequence := s' \<rparr>]) = chainInvalid k msg \<and>
           (\<forall>p. p < length c \<and>
                sort_key sequence (c[i := (c ! i) \<lparr> sequence := s' \<rparr>]) ! p =
                  (c ! i) \<lparr> sequence := s' \<rparr> \<longrightarrow> k \<le> p)))"
proof -
  have l: "linkedFrom H GENESIS_HASH 0 c"
    unfolding assms(3) using assms(1,2) by (rule getFullChain_linked)
  have "verifyChain H c = chainValid"
    using l by (rule verifyChain_linked) simp
  moreover have "verifyChain H (c[i := (c ! i) \<lparr> hash := h' \<rparr>]) =
          chainInvalid i (recordError (c ! i) ''Hash mismatch'')"
    if "i < length c \<and> h' \<noteq> hash (c ! i)" for i h'
    using that by (intro tamper_hash[OF l]) simp_all
  moreover have "\<exists>msg. verifyChain H (c[i := (c ! i) \<lparr> prevHash := p' \<rparr>]) = chainInvalid i msg"
    if "i < length c \<and> p' \<noteq> prevHash (c ! i)" for i p'
    using that by (intro tamper_prevHash[OF l]) simp_all
  moreover have "\<exists>k msg. verifyChain H (c[i := (c ! i) \<lparr> sequence := s' \<rparr>]) =
        chainInvalid k msg \<and>
           (\<forall>p. p < length c \<and>
                sort_key sequence (c[i := (c ! i) \<lparr> sequence := s' \<rparr>]) ! p =
                  (c ! i) \<lparr> sequence := s' \<rparr> \<longrightarrow> k \<le> p)"
    if "i < length c \<and> s' \<noteq> sequence (c ! i) \<and>
          generateHash H ((c ! i) \<lparr> sequence := s' \<rparr>) \<noteq> hash (c ! i)" for i s'
    using that by (intro tamper_sequence) simp_all
  ultimately show ?thesis
    by blast
qed

subsection \<open>The example chain\<close>

lemma exampleRecord_sequence [simp]:
  "sequence (exampleRecord1 H) = 1"
  "sequence (exampleRecord2 H) = 2"
  "sequence (exampleRecord3 H) = 3"
  by (simp_all add: exampleRecord1_def exampleRecord2_def exampleRecord3_def
      newPoHChainManager_def)

lemma exampleRecord_prevHash [simp]:
  "prevHash (exampleRecord1 H) = GENESIS_HASH"
  "prevHash (exampleRecord2 H) = hash (exampleRecord1 H)"
  "prevHash (exampleRecord3 H) = hash (exampleRecord2 H)"
  by (simp_all add: exampleRecord1_def exampleRecord2_def exampleRecord3_def
      newPoHChainManager_def)

lemma exampleRecord_tokenMint [simp]:
  "tokenMint (exampleRecord1 H) = ''mint''"
  "tokenMint (exampleRecord2 H) = ''mint''"
  "tokenMint (exampleRecord3 H) = ''mint''"
  by (simp_all add: exampleRecord1_def exampleRecord2_def exampleRecord3_def
      newPoHChainManager_def)

lemma exampleRecord_verify [simp]:
  "verifyRecordHash H (exampleRecord1 H)"
  "verifyRecordHash H (exampleRecord2 H)"
  "verifyRecordHash H (exampleRecord3 H)"
  by (simp_all add: exampleRecord1_def exampleRecord2_def exampleRecord3_def)

lemma fromRow_nextRecord:
  "fromRow (nextRecord H now mgr (examplePoHEvent ty amt sig)) =
     nextRecord H now mgr (examplePoHEvent ty amt sig)"
  by (simp add: fromRow_def nextRecord_def sealRecord_def examplePoHEvent_def)

lemma fromRow_exampleRecord [simp]:
  "fromRow (exampleRecord1 H) = exampleRecord1 H"
  "fromRow (exampleRecord2 H) = exampleRecord2 H"
  "fromRow (exampleRecord3 H) = exampleRecord3 H"
  by (simp_all add: exampleRecord1_def exampleRecord2_def exampleRecord3_def
      fromRow_nextRecord)

lemma exampleChain_linked:
  "linkedFrom H GENESIS_HASH 0 [exampleRecord1 H, exampleRecord2 H, exampleRecord3 H]"
  by simp

text \<open>
  If the store accepts the three example appends, which it does when the three hashes
  differ, it holds the three example records.
\<close>

lemma exampleAppends_accepted:
  assumes "hash (exampleRecord1 H) \<noteq> hash (exampleRecord2 H)"
    and "hash (exampleRecord1 H) \<noteq> hash (exampleRecord3 H)"
    and "hash (exampleRecord2 H) \<noteq> hash (exampleRecord3 H)"
  shows "addEvents H (newPoHChainManager ''mint'', []) exampleAppends =
     (advance (advance (advance (newPoHChainManager ''mint'') (exampleRecord1 H))
        (exampleRecord2 H)) (exampleRecord3 H),
      [exampleRecord1 H, exampleRecord2 H, exampleRecord3 H])"
proof -
  define m0 where "m0 = newPoHChainManager ''mint''"
  define m1 where "m1 = advance m0 (exampleRecord1 H)"
  define m2 where "m2 = advance m1 (exampleRecord2 H)"
  have r1: "nextRecord H 1700000000000 m0 (examplePoHEvent Collect 1000000000 ''sigA'') =
      exampleRecord1 H"
    by (simp add: exampleRecord1_def m0_def)
  have r2: "nextRecord H 1700000001000 m1 (examplePoHEvent Burn 400000000 ''sigB'') =
      exampleRecord2 H"
    by (simp add: exampleRecord2_def m1_def m0_def)
  have r3: "nextRecord H 1700000002000 m2 (examplePoHEvent Withdraw 100000000 ''sigC'') =
      exampleRecord3 H"
    by (simp add: exampleRecord3_def m2_def m1_def m0_def)
  have f1: "lastSequence m1 = 1" "mgr_tokenMint m1 = ''mint''"
    by (simp_all add: m1_def m0_def newPoHChainManager_def)
  have f2: "lastSequence m2 = 2" "mgr_tokenMint m2 = ''mint''"
    by (simp_all add: m2_def f1)
  have a1: "addEvent H 1700000000000 (m0, []) (examplePoHEvent Collect 1000000000 ''sigA'') =
      Inr (exampleRecord1 H, m1, [exampleRecord1 H])"
    by (simp add: addEvent_def Let_def r1 poHRecord_create_def m1_def)
  have a2: "addEvent H 1700000001000 (m1, [exampleRecord1 H])
      (examplePoHEvent Burn 400000000 ''sigB'') =
      Inr (exampleRecord2 H, m2, [exampleRecord1 H, exampleRecord2 H])"
    using assms(1) by (simp add: addEvent_def Let_def r2 poHRecord_create_def m2_def f1)
  have a3: "addEvent H 1700000002000 (m2, [exampleRecord1 H, exampleRecord2 H])
      (examplePoHEvent Withdraw 100000000 ''sigC'') =
      Inr (exampleRecord3 H, advance m2 (exampleRecord3 H),
           [exampleRecord1 H, exampleRecord2 H, exampleRecord3 H])"
    using assms(2,3) by (simp add: addEvent_def Let_def r3 poHRecord_create_def f2)
  show ?thesis
    unfolding exampleAppends_def m0_def[symmetric]
    by (simp add: a1 a2 a3) (simp add: m2_def m1_def)
qed

lemma digit_char_inj:
  assumes "d < 10" and "e < 10" and "digit_char d = digit_char e"
  shows "d = e"
proof -
  from assms(3) have "digit_val (digit_char d) = digit_val (digit_char e)"
    by simp
  with assms(1,2) show ?thesis
    by (simp add: digit_val_digit_char)
qed

lemma nat_toString_digit: "n < 10 \<Longrightarrow> nat_toString n = [digit_char n]"
  by (subst nat_toString.simps) simp

lemma nat_toString_10: "nat_toString 10 = [digit_char 1, digit_char 0]"
  by (subst nat_toString.simps) (simp add: nat_toString_digit)

lemma hashData_head:
  assumes "0 \<le> sequence r" and "sequence r < 10"
  shows "\<exists>rest. hashData r = digit_char (nat (sequence r)) # CHR ''|'' # rest"
  using assms
  by (simp add: hashData_def number_toString_def bigint_toString_def nat_toString_digit)

lemma hashData_distinct:
  assumes "0 \<le> sequence a" and "sequence a < 10" and "0 \<le> sequence b" and "sequence b < 10"
    and "sequence a \<noteq> sequence b"
  shows "hashData a \<noteq> hashData b"
proof
  assume e: "hashData a = hashData b"
  from hashData_head[OF assms(1,2)] hashData_head[OF assms(3,4)] e
  have "digit_char (nat (sequence a)) = digit_char (nat (sequence b))"
    by auto
  with assms(1-4) have "nat (sequence a) = nat (sequence b)"
    by (intro digit_char_inj) simp_all
  with assms show False
    by simp
qed

lemma plain_hash [simp]:
  "hash (exampleRecord1 plainDigest) = hashData (exampleRecord1 plainDigest)"
  "hash (exampleRecord2 plainDigest) = hashData (exampleRecord2 plainDigest)"
  "hash (exampleRecord3 plainDigest) = hashData (exampleRecord3 plainDigest)"
  using exampleRecord_verify[of plainDigest]
  by (simp_all add: verifyRecordHash_def generateHash_def plainDigest_def)

lemma plain_appends:
  "addEvents plainDigest (newPoHChainManager ''mint'', []) exampleAppends =
     (advance (advance (advance (newPoHChainManager ''mint'') (exampleRecord1 plainDigest))
        (exampleRecord2 plainDigest)) (exampleRecord3 plainDigest),
      [exampleRecord1 plainDigest, exampleRecord2 plainDigest, exampleRecord3 plainDigest])"
  by (rule exampleAppends_accepted) (simp_all add: hashData_distinct)

lemma plain_getFullChain:
  "getFullChain
     (advance (advance (advance (newPoHChainManager ''mint'') (exampleRecord1 plainDigest))
        (exampleRecord2 plainDigest)) (exampleRecord3 plainDigest))
     [exampleRecord1 plainDigest, exampleRecord2 plainDigest, exampleRecord3 plainDigest] =
   [exampleRecord1 plainDigest, exampleRecord2 plainDigest, exampleRecord3 plainDigest]"
  by (simp add: getFullChain_def newPoHChainManager_def)

lemma invalid_fields:
  "valid (chainInvalid k msg) = False" "invalidAt (chainInvalid k msg) = Some k"
  by (simp_all add: chainInvalid_def)

lemma less_3_cases: "(i :: nat) < 3 \<Longrightarrow> i = 0 \<or> i = 1 \<or> i = 2"
  by auto

lemma sequence_moved_to_end:
  "\<exists>msg. verifyChain H [(exampleRecord1 H) \<lparr> sequence := 10 \<rparr>, exampleRecord2 H,
             exampleRecord3 H] = chainInvalid 2 msg"
proof -
  define x where "x = (exampleRecord1 H) \<lparr> sequence := 10 \<rparr>"
  define s where "s = [exampleRecord2 H, exampleRecord3 H, x]"
  have sx: "sequence x = 10"
    by (simp add: x_def)
  have srt: "sort_key sequence [x, exampleRecord2 H, exampleRecord3 H] = s"
    by (simp add: s_def sx)
  have c0: "checksAt H s 0" and c1: "checksAt H s 1"
    by (simp_all add: s_def checksAt_def)
  have c2: "\<not> checksAt H s 2"
    by (simp add: s_def checksAt_def sx)
  have "\<forall>j. j < 2 \<longrightarrow> checksAt H s j"
    using c0 c1 by (auto simp: less_2_cases_iff)
  from verifyLoop_first_fail[OF _ c2 this] obtain msg
    where "verifyLoop H s 0 = chainInvalid 2 msg"
    by (auto simp: s_def)
  moreover have "\<not> (prevHash (s ! 0) \<noteq> GENESIS_HASH \<and> sequence (s ! 0) = 1)"
    by (simp add: s_def)
  ultimately have "verifyChain H [x, exampleRecord2 H, exampleRecord3 H] = chainInvalid 2 msg"
    unfolding verifyChain_def Let_def srt by auto
  then show ?thesis
    unfolding x_def by blast
qed

text \<open>
  The claim as worded fails for the chain of the three example appends when the sequence
  number of the record at index 0 is changed from 1 to 10: the sorted list has the
  altered record last, the two untouched records pass, and verification fails at index 2,
  which is after the mutated index 0. This holds with SHA-256 as the digest, and with the
  plain digest for the chain read back from the table after the three appends.
\<close>

theorem chain_integrity_counterexample:
  "verifyChain sha256_hex
     [exampleRecord1 sha256_hex, exampleRecord2 sha256_hex, exampleRecord3 sha256_hex] =
     chainValid \<and>
   valid (verifyChain sha256_hex
     [(exampleRecord1 sha256_hex) \<lparr> sequence := 10 \<rparr>, exampleRecord2 sha256_hex,
      exampleRecord3 sha256_hex]) = False \<and>
   invalidAt (verifyChain sha256_hex
     [(exampleRecord1 sha256_hex) \<lparr> sequence := 10 \<rparr>, exampleRecord2 sha256_hex,
      exampleRecord3 sha256_hex]) = Some 2 \<and>
   getFullChain
     (fst (addEvents plainDigest (newPoHChainManager ''mint'', []) exampleAppends))
     (snd (addEvents plainDigest (newPoHChainManager ''mint'', []) exampleAppends)) =
     [exampleRecord1 plainDigest, exampleRecord2 plainDigest, exampleRecord3 plainDigest] \<and>
   invalidAt (verifyChain plainDigest
     [(exampleRecord1 plainDigest) \<lparr> sequence := 10 \<rparr>, exampleRecord2 plainDigest,
      exampleRecord3 plainDigest]) = Some 2"
proof -
  have 1: "verifyChain sha256_hex
     [exampleRecord1 sha256_hex, exampleRecord2 sha256_hex, exampleRecord3 sha256_hex] =
     chainValid"
    using exampleChain_linked[of sha256_hex] by (rule verifyChain_linked) simp
  from sequence_moved_to_end[of sha256_hex] obtain msg where
    "verifyChain sha256_hex
     [(exampleRecord1 sha256_hex) \<lparr> sequence := 10 \<rparr>, exampleRecord2 sha256_hex,
      exampleRecord3 sha256_hex] = chainInvalid 2 msg"
    by blast
  then have 2: "valid (verifyChain sha256_hex
     [(exampleRecord1 sha256_hex) \<lparr> sequence := 10 \<rparr>, exampleRecord2 sha256_hex,
      exampleRecord3 sha256_hex]) = False"
    and 3: "invalidAt (verifyChain sha256_hex
     [(exampleRecord1 sha256_hex) \<lparr> sequence := 10 \<rparr>, exampleRecord2 sha256_hex,
      exampleRecord3 sha256_hex]) = Some 2"
    by (simp_all add: invalid_fields)
  have 4: "getFullChain
     (fst (addEvents plainDigest (newPoHChainManager ''mint'', []) exampleAppends))
     (snd (addEvents plainDigest (newPoHChainManager ''mint'', []) exampleAppends)) =
     [exampleRecord1 plainDigest, exampleRecord2 plainDigest, exampleRecord3 plainDigest]"
    by (simp only: plain_appends fst_conv snd_conv plain_getFullChain)
  from sequence_moved_to_end[of plainDigest] obtain msg' where
    "verifyChain plainDigest
     [(exampleRecord1 plainDigest) \<lparr> sequence := 10 \<rparr>, exampleRecord2 plainDigest,
      exampleRecord3 plainDigest] = chainInvalid 2 msg'"
    by blast
  then have 5: "invalidAt (verifyChain plainDigest
     [(exampleRecord1 plainDigest) \<lparr> sequence := 10 \<rparr>, exampleRecord2 plainDigest,
      exampleRecord3 plainDigest]) = Some 2"
    by (simp add: invalid_fields)
  from 1 2 3 4 5 show ?thesis
    by (intro conjI)
qed

lemma hashData_not_empty:
  assumes "0 \<le> sequence r" and "sequence r < 10"
  shows "hashData r \<noteq> []"
  using hashData_head[OF assms] by auto

lemma hashData_sequence_10:
  "\<exists>rest. hashData (r \<lparr> sequence := 10 \<rparr>) = digit_char 1 # digit_char 0 # rest"
  by (simp add: hashData_def number_toString_def bigint_toString_def nat_toString_10)

theorem chain_integrity_witness:
  "verifyChain plainDigest
     [exampleRecord1 plainDigest, exampleRecord2 plainDigest, exampleRecord3 plainDigest] =
     chainValid \<and>
   verifyChain plainDigest
     [exampleRecord1 plainDigest, (exampleRecord2 plainDigest) \<lparr> hash := [] \<rparr>,
      exampleRecord3 plainDigest] =
     chainInvalid 1 (recordError (exampleRecord2 plainDigest) ''Hash mismatch'') \<and>
   (\<exists>msg. verifyChain plainDigest
     [(exampleRecord1 plainDigest) \<lparr> prevHash := [] \<rparr>, exampleRecord2 plainDigest,
      exampleRecord3 plainDigest] = chainInvalid 0 msg) \<and>
   (\<exists>k msg. verifyChain plainDigest
     [exampleRecord1 plainDigest, exampleRecord2 plainDigest,
      (exampleRecord3 plainDigest) \<lparr> sequence := 10 \<rparr>] = chainInvalid k msg \<and> k \<le> 2)"
proof -
  define r1 where "r1 = exampleRecord1 plainDigest"
  define r2 where "r2 = exampleRecord2 plainDigest"
  define r3 where "r3 = exampleRecord3 plainDigest"
  define c where "c = [r1, r2, r3]"
  have h1: "\<not> list_ex (\<lambda>r. tokenMint r = ''mint'') []"
    by simp
  have h3: "c = getFullChain
     (advance (advance (advance (newPoHChainManager ''mint'') (exampleRecord1 plainDigest))
        (exampleRecord2 plainDigest)) (exampleRecord3 plainDigest))
     [exampleRecord1 plainDigest, exampleRecord2 plainDigest, exampleRecord3 plainDigest]"
    by (simp only: plain_getFullChain c_def r1_def r2_def r3_def)
  note T = chain_integrity[OF h1 plain_appends h3]
  have seqs: "sequence r1 = 1" "sequence r2 = 2" "sequence r3 = 3"
    by (simp_all add: r1_def r2_def r3_def)
  have hs: "hash r2 = hashData r2" "hash r3 = hashData r3"
    by (simp_all add: r2_def r3_def)
  have u1: "c[1 := (c ! 1) \<lparr> hash := [] \<rparr>] = [r1, r2 \<lparr> hash := [] \<rparr>, r3]"
    and u0: "c[0 := (c ! 0) \<lparr> prevHash := [] \<rparr>] = [r1 \<lparr> prevHash := [] \<rparr>, r2, r3]"
    and u2: "c[2 := (c ! 2) \<lparr> sequence := 10 \<rparr>] = [r1, r2, r3 \<lparr> sequence := 10 \<rparr>]"
    and n: "c ! 1 = r2" "c ! 0 = r1" "c ! 2 = r3" "length c = 3"
    by (simp_all add: c_def numeral_2_eq_2)
  from T have v: "verifyChain plainDigest c = chainValid"
    by (rule conjunct1)
  have a1: "(1 :: nat) < length c \<and> [] \<noteq> hash (c ! 1)"
    using hashData_not_empty[of r2] by (simp add: c_def hs seqs)
  from T[THEN conjunct2, THEN conjunct1, THEN spec, THEN spec, THEN mp, OF a1]
  have a: "verifyChain plainDigest [r1, r2 \<lparr> hash := [] \<rparr>, r3] =
      chainInvalid 1 (recordError r2 ''Hash mismatch'')"
    unfolding n by (simp add: c_def)
  have b1: "(0 :: nat) < length c \<and> [] \<noteq> prevHash (c ! 0)"
    by (simp add: n r1_def GENESIS_HASH_def)
  from T[THEN conjunct2, THEN conjunct2, THEN conjunct1, THEN spec, THEN spec, THEN mp, OF b1]
  have b: "\<exists>msg. verifyChain plainDigest [r1 \<lparr> prevHash := [] \<rparr>, r2, r3] = chainInvalid 0 msg"
    unfolding n by (simp add: c_def)
  have "generateHash plainDigest (r3 \<lparr> sequence := 10 \<rparr>) \<noteq> hash r3"
  proof
    assume e: "generateHash plainDigest (r3 \<lparr> sequence := 10 \<rparr>) = hash r3"
    from hashData_sequence_10[of r3] hashData_head[of r3] e
    have "digit_char 1 = digit_char 3"
      by (auto simp: generateHash_def plainDigest_def hs seqs)
    then have "(1 :: nat) = 3"
      by (intro digit_char_inj) simp_all
    then show False
      by simp
  qed
  then have c1: "(2 :: nat) < length c \<and> 10 \<noteq> sequence (c ! 2) \<and>
      generateHash plainDigest ((c ! 2) \<lparr> sequence := 10 \<rparr>) \<noteq> hash (c ! 2)"
    by (simp add: n seqs)
  from T[THEN conjunct2, THEN conjunct2, THEN conjunct2, THEN spec, THEN spec, THEN mp, OF c1]
  obtain k msg where k: "verifyChain plainDigest [r1, r2, r3 \<lparr> sequence := 10 \<rparr>] =
      chainInvalid k msg"
    and p: "\<forall>p. p < length c \<and> sort_key sequence [r1, r2, r3 \<lparr> sequence := 10 \<rparr>] ! p =
        r3 \<lparr> sequence := 10 \<rparr> \<longrightarrow> k \<le> p"
    unfolding n c_def by (auto simp: numeral_2_eq_2)
  have "sort_key sequence [r1, r2, r3 \<lparr> sequence := 10 \<rparr>] = [r1, r2, r3 \<lparr> sequence := 10 \<rparr>]"
    by (simp add: seqs)
  with p have "k \<le> 2"
    by (simp add: n)
  with k have cc: "\<exists>k msg. verifyChain plainDigest [r1, r2, r3 \<lparr> sequence := 10 \<rparr>] =
      chainInvalid k msg \<and> k \<le> 2"
    by blast
  from v a b cc show ?thesis
    unfolding c_def r1_def r2_def r3_def by (intro conjI)
qed

theorem verifyChain_genesis_link_only_at_one_witness:
  "verifyChain sha256_hex [exampleRecord3 sha256_hex, exampleRecord2 sha256_hex] = chainValid \<and>
   verifyChain sha256_hex [(exampleRecord1 sha256_hex) \<lparr> prevHash := [] \<rparr>] =
     chainInvalid 0 ''First record does not link to genesis hash''"
proof -
  define r2 where "r2 = exampleRecord2 sha256_hex"
  define r3 where "r3 = exampleRecord3 sha256_hex"
  define x where "x = (exampleRecord1 sha256_hex) \<lparr> prevHash := [] \<rparr>"
  have seqs: "sequence r2 = 2" "sequence r3 = 3" "sequence x = 1"
    by (simp_all add: r2_def r3_def x_def)
  have s1: "[r2, r3] = sort_key sequence [r3, r2]"
    by (simp add: seqs)
  have ne1: "[r3, r2] \<noteq> []"
    by simp
  have c: "checksAt sha256_hex [r2, r3] i" if "i < 2" for i
    using that by (auto simp: less_2_cases_iff checksAt_def r2_def r3_def)
  have hyp: "sequence ([r2, r3] ! 0) \<noteq> 1 \<and>
      (\<forall>i. i < length [r2, r3] \<longrightarrow> checksAt sha256_hex [r2, r3] i)"
    using c by (simp add: seqs)
  from verifyChain_genesis_link_only_at_one[OF ne1 s1, of sha256_hex,
      THEN conjunct2, THEN conjunct1, THEN mp, OF hyp]
  have 1: "verifyChain sha256_hex [r3, r2] = chainValid" .
  have s2: "[x] = sort_key sequence [x]"
    by simp
  have ne2: "[x] \<noteq> []"
    by simp
  have hyp2: "sequence ([x] ! 0) = 1 \<and> prevHash ([x] ! 0) \<noteq> GENESIS_HASH"
    by (simp add: seqs x_def GENESIS_HASH_def)
  from verifyChain_genesis_link_only_at_one[OF ne2 s2, of sha256_hex,
      THEN conjunct1, THEN mp, OF hyp2]
  have 2: "verifyChain sha256_hex [x] =
      chainInvalid 0 ''First record does not link to genesis hash''" .
  from 1 2 show ?thesis
    unfolding r2_def r3_def x_def by (intro conjI)
qed

theorem tokenSymbol_not_hashed_witness:
  "verifyChain sha256_hex
     [exampleRecord1 sha256_hex, (exampleRecord2 sha256_hex) \<lparr> tokenSymbol := Some ''FAKE'' \<rparr>,
      exampleRecord3 sha256_hex] = chainValid \<and>
   verifyRecordHash sha256_hex ((exampleRecord2 sha256_hex) \<lparr> tokenSymbol := Some ''FAKE'' \<rparr>)"
proof -
  define r1 where "r1 = exampleRecord1 sha256_hex"
  define r2 where "r2 = exampleRecord2 sha256_hex"
  define r3 where "r3 = exampleRecord3 sha256_hex"
  define c where "c = [r1, r2, r3]"
  note T = tokenSymbol_not_hashed[where H = sha256_hex and r = r2 and x = "Some ''FAKE''"
      and y = "tokenSymbol r2" and rs = c and i = 1]
  have u: "c[1 := (c ! 1) \<lparr> tokenSymbol := Some ''FAKE'' \<rparr>] =
      [r1, r2 \<lparr> tokenSymbol := Some ''FAKE'' \<rparr>, r3]"
    and u': "c[1 := (c ! 1) \<lparr> tokenSymbol := tokenSymbol r2 \<rparr>] = c"
    by (simp_all add: c_def)
  have v: "verifyChain sha256_hex c = chainValid"
    unfolding c_def r1_def r2_def r3_def
    using exampleChain_linked[of sha256_hex] by (rule verifyChain_linked) simp
  from T have "verifyChain sha256_hex (c[1 := (c ! 1) \<lparr> tokenSymbol := Some ''FAKE'' \<rparr>]) =
      verifyChain sha256_hex (c[1 := (c ! 1) \<lparr> tokenSymbol := tokenSymbol r2 \<rparr>])"
    by (elim conjE)
  with v have 1: "verifyChain sha256_hex [r1, r2 \<lparr> tokenSymbol := Some ''FAKE'' \<rparr>, r3] =
      chainValid"
    by (simp only: u u')
  from T have "verifyRecordHash sha256_hex (r2 \<lparr> tokenSymbol := Some ''FAKE'' \<rparr>) =
      verifyRecordHash sha256_hex (r2 \<lparr> tokenSymbol := tokenSymbol r2 \<rparr>)"
    by (elim conjE)
  then have 2: "verifyRecordHash sha256_hex (r2 \<lparr> tokenSymbol := Some ''FAKE'' \<rparr>)"
    by (simp add: r2_def)
  from 1 2 show ?thesis
    unfolding r1_def r2_def r3_def by (intro conjI)
qed

end
